theory Spec2Isabelle
  imports Complex_Main
begin

section \<open>JavaScript numbers\<close>

text \<open>
  Every number in \<^verbatim>\<open>StoreTrip.js\<close> is an IEEE 754 binary64 value.  A finite value is
  kept as the rational it denotes; the two infinities and NaN are separate constructors.
  Negative zero is identified with zero: the program only adds, subtracts, multiplies and
  compares numbers (\<^verbatim>\<open>>=\<close>, \<^verbatim>\<open><\<close>), and none of these tells the two zeros apart.
\<close>

datatype jsnum = NaN | NegInf | Num rat | PosInf

text \<open>Number of binary digits of a natural number.\<close>

fun bitlen :: "nat \<Rightarrow> nat" where
  "bitlen n = (if n = 0 then 0 else Suc (bitlen (n div 2)))"

declare bitlen.simps [simp del]

definition pow2 :: "int \<Rightarrow> rat" where
  "pow2 e = (if 0 \<le> e then 2 ^ nat e else 1 / 2 ^ nat (- e))"

text \<open>For \<open>0 < x\<close>, \<open>ilog2 x\<close> is the integer \<open>k\<close> with \<open>2\<^sup>k \<le> x < 2\<^sup>k\<^sup>+\<^sup>1\<close>.\<close>

definition ilog2 :: "rat \<Rightarrow> int" where
  "ilog2 x = (if 1 \<le> x then int (bitlen (nat \<lfloor>x\<rfloor>)) - 1
              else - int (bitlen (nat (\<lceil>1 / x\<rceil> - 1))))"

definition roundHalfEven :: "rat \<Rightarrow> int" where
  "roundHalfEven x =
     (let f = \<lfloor>x\<rfloor>; d = x - of_int f
      in if d < 1 / 2 then f else if 1 / 2 < d then f + 1 else if even f then f else f + 1)"

text \<open>
  Rounding to the nearest binary64 value, ties to the even significand: 53 significant
  bits, and a spacing that never goes below \<open>2\<^sup>-\<^sup>1\<^sup>0\<^sup>7\<^sup>4\<close> (the subnormal range).
\<close>

definition toDouble :: "rat \<Rightarrow> rat" where
  "toDouble x =
     (if x = 0 then 0
      else let e = max (- 1074) (ilog2 \<bar>x\<bar> - 52)
           in of_int (roundHalfEven (x / pow2 e)) * pow2 e)"

text \<open>The Number that an exact result rounds to; beyond the largest finite value it is an infinity.\<close>

definition mk :: "rat \<Rightarrow> jsnum" where
  "mk x = (let r = toDouble x
           in if pow2 1024 \<le> r then PosInf else if r \<le> - pow2 1024 then NegInf else Num r)"

text \<open>A decimal literal of the source, such as \<^verbatim>\<open>0.7\<close>, is \<open>lit (7 / 10)\<close>.\<close>

definition lit :: "rat \<Rightarrow> jsnum" where
  "lit q = mk q"

fun fneg :: "jsnum \<Rightarrow> jsnum" where
  "fneg NaN = NaN"
| "fneg NegInf = PosInf"
| "fneg PosInf = NegInf"
| "fneg (Num a) = Num (- a)"

fun fadd :: "jsnum \<Rightarrow> jsnum \<Rightarrow> jsnum" where
  "fadd (Num a) (Num b) = mk (a + b)"
| "fadd NaN y = NaN"
| "fadd x NaN = NaN"
| "fadd PosInf NegInf = NaN"
| "fadd NegInf PosInf = NaN"
| "fadd PosInf y = PosInf"
| "fadd x PosInf = PosInf"
| "fadd NegInf y = NegInf"
| "fadd x NegInf = NegInf"

definition fsub :: "jsnum \<Rightarrow> jsnum \<Rightarrow> jsnum" where
  "fsub x y = fadd x (fneg y)"

fun negative :: "jsnum \<Rightarrow> bool" where
  "negative (Num a) = (a < 0)"
| "negative NegInf = True"
| "negative x = False"

fun fmul :: "jsnum \<Rightarrow> jsnum \<Rightarrow> jsnum" where
  "fmul (Num a) (Num b) = mk (a * b)"
| "fmul x y =
     (if x = NaN \<or> y = NaN \<or> x = Num 0 \<or> y = Num 0 then NaN
      else if negative x = negative y then PosInf else NegInf)"

text \<open>\<^verbatim>\<open>x < y\<close> and \<^verbatim>\<open>x >= y\<close>: both are false as soon as one side is NaN.\<close>

fun flt :: "jsnum \<Rightarrow> jsnum \<Rightarrow> bool" where
  "flt (Num a) (Num b) = (a < b)"
| "flt NaN y = False"
| "flt x NaN = False"
| "flt PosInf y = False"
| "flt x NegInf = False"
| "flt x PosInf = True"
| "flt NegInf y = True"

definition fge :: "jsnum \<Rightarrow> jsnum \<Rightarrow> bool" where
  "fge x y = (x \<noteq> NaN \<and> y \<noteq> NaN \<and> \<not> flt x y)"

section \<open>The perceptron\<close>

text \<open>
  \<^verbatim>\<open>arr[i]\<close> read as a number: an index past the end gives \<^verbatim>\<open>undefined\<close>, which
  arithmetic turns into NaN.
\<close>

definition elemAt :: "jsnum list \<Rightarrow> nat \<Rightarrow> jsnum" where
  "elemAt arr i = (if i < length arr then arr ! i else NaN)"

text \<open>The \<^verbatim>\<open>for\<close> loop of \<^verbatim>\<open>summationOfInputsAndWeights\<close>, entered with index \<open>i\<close>.\<close>

function forLoop :: "nat \<Rightarrow> jsnum \<Rightarrow> jsnum list \<Rightarrow> jsnum list \<Rightarrow> jsnum" where
  "forLoop i sum0 inputsArray weightsArray =
     (if i < length inputsArray
      then forLoop (Suc i) (fadd sum0 (fmul (elemAt inputsArray i) (elemAt weightsArray i)))
             inputsArray weightsArray
      else sum0)"
  by pat_completeness auto
termination
  by (relation "measure (\<lambda>(i, sum0, inputsArray, weightsArray). length inputsArray - i)") auto

declare forLoop.simps [simp del]

definition summationOfInputsAndWeights ::
  "jsnum \<Rightarrow> jsnum list \<Rightarrow> jsnum list \<Rightarrow> jsnum \<Rightarrow> jsnum" where
  "summationOfInputsAndWeights sum0 inputsArray weightsArray bias =
     fadd (forLoop 0 sum0 inputsArray weightsArray) bias"

text \<open>
  Every decision of the program has the same shape: \<^verbatim>\<open>let sum = 0;
  sum = summationOfInputsAndWeights(sum, inputs, weights, bias); if (sum >= threshold)\<close>.
\<close>

definition decide :: "jsnum list \<Rightarrow> jsnum list \<Rightarrow> jsnum \<Rightarrow> jsnum \<Rightarrow> bool" where
  "decide inputs weights bias threshold =
     fge (summationOfInputsAndWeights (Num 0) inputs weights bias) threshold"

text \<open>
  The formula of the specification, \<open>bias + \<Sum> inputs[i] * weights[i]\<close>, with the sum
  accumulated from 0 in index order in floating-point arithmetic.
\<close>

definition weightedSum :: "jsnum list \<Rightarrow> jsnum list \<Rightarrow> jsnum" where
  "weightedSum inputs weights =
     foldl (\<lambda>s (x, w). fadd s (fmul x w)) (Num 0) (zip inputs weights)"

section \<open>The agent and the global state\<close>

record agent =
  environmentSequence :: "bool list"
  actionSequence :: "bool list"

definition addEnvironment :: "bool \<Rightarrow> agent \<Rightarrow> agent" where
  "addEnvironment env a = a\<lparr>environmentSequence := environmentSequence a @ [env]\<rparr>"

definition addAction :: "bool \<Rightarrow> agent \<Rightarrow> agent" where
  "addAction choice a = a\<lparr>actionSequence := actionSequence a @ [choice]\<rparr>"

text \<open>\<^verbatim>\<open>arr.includes(x, fromIndex)\<close>; \<^verbatim>\<open>arr.includes(x)\<close> searches from index 0.\<close>

definition includesFrom :: "bool list \<Rightarrow> bool \<Rightarrow> nat \<Rightarrow> bool" where
  "includesFrom arr x fromIndex = (x \<in> set (drop fromIndex arr))"

text \<open>
  The top-level variables of the script.  \<open>random\<close> lists what the calls of
  \<^verbatim>\<open>Math.random()\<close> will return, in order (\<open>True\<close>: a value of at least one half, so that
  \<^verbatim>\<open>Math.floor(Math.random() * 2)\<close> is 1), and \<open>draws\<close> counts the calls made so far.
\<close>

record world =
  Agent :: agent
  money :: jsnum
  atHome :: bool
  onTheStreets :: bool
  atStore :: bool
  tookBus :: bool
  tookTaxi :: bool
  gotEnergyDrink :: bool
  tookBusHome :: bool
  tookTaxiHome :: bool
  random :: "nat \<Rightarrow> bool"
  draws :: nat

definition getZeroOrOne :: "world \<Rightarrow> jsnum \<times> world" where
  "getZeroOrOne w = (if random w (draws w) then Num 1 else Num 0, w\<lparr>draws := Suc (draws w)\<rparr>)"

text \<open>The state in which \<^verbatim>\<open>takeBusOrTaxi()\<close> is called (lines 84 to 88, 116, 117, 215, 603, 604).\<close>

definition start :: "(nat \<Rightarrow> bool) \<Rightarrow> world" where
  "start rnd =
     \<lparr>Agent = addEnvironment True \<lparr>environmentSequence = [], actionSequence = []\<rparr>,
      money = Num 75, atHome = True, onTheStreets = False, atStore = False,
      tookBus = False, tookTaxi = False, gotEnergyDrink = False,
      tookBusHome = False, tookTaxiHome = False, random = rnd, draws = 0\<rparr>"

section \<open>Getting to the store\<close>

definition takeBusOrTaxi :: "world \<Rightarrow> world" where
  "takeBusOrTaxi w0 =
     (let w1 = w0\<lparr>atHome := False, onTheStreets := True\<rparr>;
          w2 = w1\<lparr>Agent := addEnvironment (onTheStreets w1) (Agent w1)\<rparr>;
          taxi_choice_threshold = lit (3 / 2);
          cost_factor = Num 1;
          (weatherFactor, w3) = getZeroOrOne w2;
          (trafficFactor, w4) = getZeroOrOne w3;
          (busCrowdingFactor, w5) = getZeroOrOne w4;
          cost_weight = lit (7 / 10);
          weather_weight = lit (1 / 2);
          traffic_weight = lit (2 / 5);
          bus_crowding_weight = lit (3 / 10);
          bus_bias = fneg (lit (1 / 5));
          inputs = [cost_factor, weatherFactor, trafficFactor, busCrowdingFactor];
          weights = [cost_weight, weather_weight, traffic_weight, bus_crowding_weight];
          sum0 = summationOfInputsAndWeights (Num 0) inputs weights bus_bias
      in if fge sum0 taxi_choice_threshold
         then let w6 = w5\<lparr>money := fsub (money w5) (Num 10), tookTaxi := True\<rparr>
              in w6\<lparr>Agent := addAction (tookTaxi w6) (Agent w6), onTheStreets := False\<rparr>
         else let w6 = w5\<lparr>money := fsub (money w5) (Num 5), tookBus := True\<rparr>
              in w6\<lparr>Agent := addAction (tookBus w6) (Agent w6), onTheStreets := False\<rparr>)"

section \<open>In the store\<close>

record item =
  item :: string
  type :: string
  price :: jsnum

text \<open>The local variables of one branch of \<^verbatim>\<open>storeScenario\<close>.\<close>

record shop =
  checkListIncomplete :: bool
  shoppingCart :: "item list"
  gotEggs :: bool
  gotMilk :: bool
  gotLighter :: bool

definition localEggs :: item where
  "localEggs = \<lparr>item = ''eggs'', type = ''local'', price = Num 6\<rparr>"

definition brandNameEggs :: item where
  "brandNameEggs = \<lparr>item = ''eggs'', type = ''brand name'', price = Num 8\<rparr>"

definition localMilk :: item where
  "localMilk = \<lparr>item = ''milk'', type = ''local'', price = Num 7\<rparr>"

definition brandNameMilk :: item where
  "brandNameMilk = \<lparr>item = ''milk'', type = ''brand name'', price = Num 9\<rparr>"

definition localLighter :: item where
  "localLighter = \<lparr>item = ''lighter'', type = ''local'', price = Num 3\<rparr>"

definition brandNameLighter :: item where
  "brandNameLighter = \<lparr>item = ''lighter'', type = ''brand name'', price = Num 5\<rparr>"

text \<open>
  \<^verbatim>\<open>String.prototype.toLowerCase\<close> on the letters A to Z.  No character outside ASCII
  has \<^verbatim>\<open>l\<close>, \<^verbatim>\<open>r\<close> or \<^verbatim>\<open>s\<close> as its lower case, so the comparisons of the loop do not see
  the difference.
\<close>

definition lowerChar :: "char \<Rightarrow> char" where
  "lowerChar c =
     (let n = (of_char c :: nat) in if 65 \<le> n \<and> n \<le> 90 then char_of (n + 32) else c)"

definition toLowerCase :: "string \<Rightarrow> string" where
  "toLowerCase s = map lowerChar s"

text \<open>
  The block that the six purchasing branches share: one draw for the local goods, the
  perceptron, and the chosen variant.  The branches differ in the two items only.
\<close>

definition chooseItem :: "jsnum \<Rightarrow> item \<Rightarrow> item \<Rightarrow> world \<Rightarrow> item \<times> world" where
  "chooseItem spending_bias localItem brandNameItem w =
     (let brand_name_item_threshold = lit 1;
          cost_factor = Num 1;
          brand_name_factor = Num 1;
          (localGoodsFactor, w1) = getZeroOrOne w;
          cost_weight = lit (3 / 5);
          local_goods_weight = fneg (lit (3 / 10));
          brand_name_weight = lit (3 / 5);
          inputs = [cost_factor, localGoodsFactor, brand_name_factor];
          weights = [cost_weight, local_goods_weight, brand_name_weight];
          sum0 = summationOfInputsAndWeights (Num 0) inputs weights spending_bias
      in if fge sum0 brand_name_item_threshold then (brandNameItem, w1) else (localItem, w1))"

text \<open>The test that closes an iteration which did not \<^verbatim>\<open>continue\<close> (lines 363 to 366).\<close>

definition checkList :: "world \<times> shop \<Rightarrow> world \<times> shop" where
  "checkList ws =
     (let (w, sh) = ws
      in if includesFrom (actionSequence (Agent w)) (gotEggs sh) 0 \<and>
            includesFrom (actionSequence (Agent w)) (gotMilk sh) 0 \<and>
            includesFrom (actionSequence (Agent w)) (gotLighter sh) 0
         then (w, sh\<lparr>checkListIncomplete := False\<rparr>) else (w, sh))"

text \<open>One iteration of the \<^verbatim>\<open>while\<close> loop, on the line that \<^verbatim>\<open>readline.question\<close> returned.\<close>

definition loopBody :: "jsnum \<Rightarrow> string \<Rightarrow> world \<times> shop \<Rightarrow> world \<times> shop" where
  "loopBody spending_bias routeDecision ws =
     (let (w, sh) = ws
      in if toLowerCase routeDecision = ''l'' \<and>
            \<not> includesFrom (actionSequence (Agent w)) (gotEggs sh) 1
         then let (it, w1) = chooseItem spending_bias localEggs brandNameEggs w;
                  sh1 = sh\<lparr>shoppingCart := shoppingCart sh @ [it], gotEggs := True\<rparr>
              in checkList (w1\<lparr>Agent := addAction (gotEggs sh1) (Agent w1)\<rparr>, sh1)
         else if toLowerCase routeDecision = ''l'' \<and>
            includesFrom (actionSequence (Agent w)) (gotEggs sh) 1
         then (w, sh)
         else if toLowerCase routeDecision = ''r'' \<and>
            \<not> includesFrom (actionSequence (Agent w)) (gotMilk sh) 1
         then let (it, w1) = chooseItem spending_bias localMilk brandNameMilk w;
                  sh1 = sh\<lparr>shoppingCart := shoppingCart sh @ [it], gotMilk := True\<rparr>
              in checkList (w1\<lparr>Agent := addAction (gotMilk sh1) (Agent w1)\<rparr>, sh1)
         else if toLowerCase routeDecision = ''r'' \<and>
            includesFrom (actionSequence (Agent w)) (gotMilk sh) 1
         then (w, sh)
         else if toLowerCase routeDecision = ''s'' \<and>
            \<not> includesFrom (actionSequence (Agent w)) (gotLighter sh) 1
         then let (it, w1) = chooseItem spending_bias localLighter brandNameLighter w;
                  sh1 = sh\<lparr>shoppingCart := shoppingCart sh @ [it], gotLighter := True\<rparr>
              in checkList (w1\<lparr>Agent := addAction (gotLighter sh1) (Agent w1)\<rparr>, sh1)
         else if toLowerCase routeDecision = ''s'' \<and>
            includesFrom (actionSequence (Agent w)) (gotLighter sh) 1
         then (w, sh)
         else checkList (w, sh))"

text \<open>
  The \<^verbatim>\<open>while (checkListIncomplete)\<close> loop on the lines typed at the prompt.  The result
  still has \<open>checkListIncomplete\<close> set when the lines run out before the loop has ended:
  the program then waits at the prompt and never leaves the loop.
\<close>

fun whileLoop :: "jsnum \<Rightarrow> string list \<Rightarrow> world \<times> shop \<Rightarrow> world \<times> shop" where
  "whileLoop spending_bias [] ws = ws"
| "whileLoop spending_bias (routeDecision # rest) ws =
     (if checkListIncomplete (snd ws)
      then whileLoop spending_bias rest (loopBody spending_bias routeDecision ws)
      else ws)"

definition enterLoop :: "world \<Rightarrow> world \<times> shop" where
  "enterLoop w =
     (w, \<lparr>checkListIncomplete = True, shoppingCart = [],
          gotEggs = False, gotMilk = False, gotLighter = False\<rparr>)"

text \<open>Lines 369 to 377: the subtotal loop, the tax and the total.\<close>

function subTotalLoop :: "nat \<Rightarrow> jsnum \<Rightarrow> item list \<Rightarrow> jsnum" where
  "subTotalLoop i subTotal cart =
     (if i < length cart then subTotalLoop (Suc i) (fadd subTotal (price (cart ! i))) cart
      else subTotal)"
  by pat_completeness auto
termination
  by (relation "measure (\<lambda>(i, subTotal, cart). length cart - i)") auto

declare subTotalLoop.simps [simp del]

definition shoppingSubTotal :: "item list \<Rightarrow> jsnum" where
  "shoppingSubTotal cart = subTotalLoop 0 (Num 0) cart"

definition salesTaxofSubTotal :: "item list \<Rightarrow> jsnum" where
  "salesTaxofSubTotal cart = fmul (shoppingSubTotal cart) (lit (1 / 20))"

definition totalPrice :: "item list \<Rightarrow> jsnum" where
  "totalPrice cart = fadd (shoppingSubTotal cart) (salesTaxofSubTotal cart)"

text \<open>Line 379: \<^verbatim>\<open>money -= totalPrice\<close>.\<close>

definition payGroceries :: "item list \<Rightarrow> world \<Rightarrow> world" where
  "payGroceries cart w = w\<lparr>money := fsub (money w) (totalPrice cart)\<rparr>"

text \<open>Lines 383 to 392: the energy drink.\<close>

definition energyDrink :: "world \<Rightarrow> world" where
  "energyDrink w =
     (if flt (money w) (Num 40) then w
      else w\<lparr>money := fsub (money w) (Num 6), gotEnergyDrink := True\<rparr>)"

text \<open>
  One branch of \<^verbatim>\<open>storeScenario\<close>; the taxi branch and the bus branch are the same text
  with \<open>spending_bias\<close> \<^verbatim>\<open>-0.2\<close> and \<^verbatim>\<open>0\<close>.  \<open>atCheckout\<close> is the state once line 379 has
  run, \<open>None\<close> when the loop never ends on the given lines.
\<close>

definition atCheckout :: "jsnum \<Rightarrow> string list \<Rightarrow> world \<Rightarrow> world option" where
  "atCheckout spending_bias lines w =
     (let (w1, sh) = whileLoop spending_bias lines (enterLoop w)
      in if checkListIncomplete sh then None else Some (payGroceries (shoppingCart sh) w1))"

definition storeBranch :: "jsnum \<Rightarrow> string list \<Rightarrow> world \<Rightarrow> world option" where
  "storeBranch spending_bias lines w = map_option energyDrink (atCheckout spending_bias lines w)"

text \<open>Lines 218 and 219.\<close>

definition enterStore :: "world \<Rightarrow> world" where
  "enterStore w0 =
     (let w1 = w0\<lparr>atStore := True\<rparr> in w1\<lparr>Agent := addEnvironment (atStore w1) (Agent w1)\<rparr>)"

definition storeScenario :: "string list \<Rightarrow> world \<Rightarrow> world option" where
  "storeScenario lines w0 =
     (let w = enterStore w0
      in if includesFrom (actionSequence (Agent w)) (tookTaxi w) 0
         then storeBranch (fneg (lit (1 / 5))) lines w
         else if includesFrom (actionSequence (Agent w)) (tookBus w) 0
         then storeBranch (Num 0) lines w
         else Some w)"

section \<open>Getting home\<close>

definition takeTaxiOrBus :: "world \<Rightarrow> world" where
  "takeTaxiOrBus w0 =
     (let w1 = w0\<lparr>atStore := False, onTheStreets := True\<rparr>;
          w2 = w1\<lparr>Agent := addEnvironment (onTheStreets w1) (Agent w1)\<rparr>;
          bus_choice_threshold = lit (13 / 10);
          cost_factor = Num 1;
          (weatherFactor, w3) = getZeroOrOne w2;
          (trafficFactor, w4) = getZeroOrOne w3;
          (busCrowdingFactor, w5) = getZeroOrOne w4;
          moneyUnder40 = (if flt (money w5) (Num 40) then Num 1 else Num 0);
          cost_weight = lit (7 / 10);
          weather_weight = fneg (lit (1 / 2));
          traffic_weight = lit (3 / 5);
          bus_crowding_weight = fneg (lit (3 / 10));
          money_weight = lit (2 / 5);
          taxi_bias = fneg (lit (1 / 5));
          inputs = [cost_factor, weatherFactor, trafficFactor, busCrowdingFactor, moneyUnder40];
          weights = [cost_weight, weather_weight, traffic_weight, bus_crowding_weight,
                     money_weight];
          sum0 = summationOfInputsAndWeights (Num 0) inputs weights taxi_bias
      in if fge sum0 bus_choice_threshold
         then let w6 = w5\<lparr>money := fsub (money w5) (Num 5), tookBusHome := True\<rparr>
              in w6\<lparr>Agent := addAction (tookBusHome w6) (Agent w6), onTheStreets := False\<rparr>
         else let w6 = w5\<lparr>money := fsub (money w5) (Num 11), tookTaxiHome := True\<rparr>
              in w6\<lparr>Agent := addAction (tookTaxiHome w6) (Agent w6), onTheStreets := False\<rparr>)"

text \<open>The whole script, from line 183 to line 678.\<close>

definition program :: "(nat \<Rightarrow> bool) \<Rightarrow> string list \<Rightarrow> world option" where
  "program rnd lines =
     map_option (\<lambda>w. (takeTaxiOrBus w)\<lparr>atHome := True\<rparr>)
       (storeScenario lines (takeBusOrTaxi (start rnd)))"

section \<open>Auxiliary notions for the proofs\<close>

text \<open>The number that \<open>getZeroOrOne\<close> returns for an outcome of \<^verbatim>\<open>Math.random\<close>.\<close>

definition bit :: "bool \<Rightarrow> jsnum" where
  "bit b = (if b then Num 1 else Num 0)"

definition named :: "string \<Rightarrow> item list \<Rightarrow> item list" where
  "named n cart = filter (\<lambda>it. item it = n) cart"

text \<open>The lowest and the highest subtotal that the sections already visited can add up to.\<close>

definition lowest :: "shop \<Rightarrow> nat" where
  "lowest sh = (if gotEggs sh then 6 else 0) + (if gotMilk sh then 7 else 0)
                 + (if gotLighter sh then 3 else 0)"

definition highest :: "shop \<Rightarrow> nat" where
  "highest sh = (if gotEggs sh then 8 else 0) + (if gotMilk sh then 9 else 0)
                  + (if gotLighter sh then 5 else 0)"

text \<open>What holds of the action history and of the local variables whenever the loop tests its condition.\<close>

definition loopInv :: "world \<times> shop \<Rightarrow> bool" where
  "loopInv ws =
     (let acts = actionSequence (Agent (fst ws)); sh = snd ws; cart = shoppingCart sh
      in acts \<noteq> [] \<and> False \<notin> set acts \<and> length cart < length acts \<and>
         length (named ''eggs'' cart) = (if gotEggs sh then 1 else 0) \<and>
         length (named ''milk'' cart) = (if gotMilk sh then 1 else 0) \<and>
         length (named ''lighter'' cart) = (if gotLighter sh then 1 else 0) \<and>
         length cart = length (named ''eggs'' cart) + length (named ''milk'' cart)
                         + length (named ''lighter'' cart) \<and>
         checkListIncomplete sh = (\<not> (gotEggs sh \<and> gotMilk sh \<and> gotLighter sh)))"

text \<open>The subtotal of the cart is a whole number within these two bounds.\<close>

definition cartInv :: "world \<times> shop \<Rightarrow> bool" where
  "cartInv ws =
     (\<exists>n. shoppingSubTotal (shoppingCart (snd ws)) = Num (of_nat n) \<and>
          lowest (snd ws) \<le> n \<and> n \<le> highest (snd ws))"

section \<open>Evaluating the arithmetic\<close>

text \<open>Rules with which the simplifier computes \<open>toDouble\<close> on numerals.\<close>

lemma bitlen_numeral_simps:
  "bitlen 0 = 0"
  "bitlen 1 = 1"
  "bitlen (Suc 0) = 1"
  "bitlen (numeral Num.One) = 1"
  "bitlen (numeral (Num.Bit0 n)) = Suc (bitlen (numeral n))"
  "bitlen (numeral (Num.Bit1 n)) = Suc (bitlen (numeral n))"
  by (subst bitlen.simps, simp add: bitlen.simps [of 0])+

lemma floor_rat_numeral:
  "\<lfloor>numeral a / numeral b :: rat\<rfloor> = numeral a div numeral b"
  "\<lfloor>- numeral a / numeral b :: rat\<rfloor> = - numeral a div numeral b"
  "\<lfloor>- (numeral a / numeral b) :: rat\<rfloor> = - numeral a div numeral b"
  "\<lfloor>1 / numeral b :: rat\<rfloor> = 1 div numeral b"
  "\<lceil>x :: rat\<rceil> = - \<lfloor>- x\<rfloor>"
      apply (metis floor_divide_of_int_eq of_int_numeral)
     apply (metis floor_divide_of_int_eq of_int_neg_numeral of_int_numeral)
    apply (metis divide_minus_left floor_divide_of_int_eq of_int_neg_numeral of_int_numeral)
   apply (metis floor_divide_of_int_eq of_int_1 of_int_numeral)
  apply (simp add: ceiling_def)
  done

lemmas dbl = mk_def lit_def toDouble_def ilog2_def pow2_def roundHalfEven_def bitlen_numeral_simps
  Let_def floor_rat_numeral

lemmas run = summationOfInputsAndWeights_def forLoop.simps elemAt_def decide_def fge_def fsub_def

text \<open>
  The rounding on values whose binary64 form is well known: 0.1, 0.7, the sums
  \<^verbatim>\<open>0.1 + 0.2\<close> (0.30000000000000004) and \<^verbatim>\<open>0.3 + 0.6\<close> (0.8999999999999999), and two
  ties just above \<open>2\<^sup>5\<^sup>3\<close>.
\<close>

lemma binary64_known_values:
  "lit (1 / 10) = Num (3602879701896397 / 36028797018963968)"
  "lit (7 / 10) = Num (3152519739159347 / 4503599627370496)"
  "fadd (lit (1 / 10)) (lit (1 / 5)) = Num (1351079888211149 / 4503599627370496)"
  "fadd (lit (1 / 10)) (lit (1 / 5)) \<noteq> lit (3 / 10)"
  "fadd (lit (3 / 10)) (lit (3 / 5)) = Num (9 / 10 - 1 / (5 * 2 ^ 51))"
  "mk (2 ^ 53 + 1) = Num (2 ^ 53)"
  "mk (2 ^ 53 + 3) = Num (2 ^ 53 + 4)"
  by (simp_all add: dbl)

text \<open>That \<open>ilog2\<close> is the binary exponent, and that the rounding goes to a nearest value.\<close>

lemma bitlen_bounds:
  "0 < n \<Longrightarrow> 2 ^ (bitlen n - 1) \<le> n \<and> n < 2 ^ bitlen n"
proof (induction n rule: bitlen.induct)
  case (1 n)
  show ?case
  proof (cases "n div 2 = 0")
    case True
    then have "n = 1" using "1.prems" by (auto simp: div_eq_0_iff)
    then show ?thesis
      by (simp add: bitlen_numeral_simps)
  next
    case False
    then have ih: "2 ^ (bitlen (n div 2) - 1) \<le> n div 2" "n div 2 < 2 ^ bitlen (n div 2)"
      using "1.IH" "1.prems" by auto
    have b: "bitlen n = Suc (bitlen (n div 2))"
      using "1.prems" by (subst bitlen.simps) simp
    have p: "0 < bitlen (n div 2)"
      using False by (subst bitlen.simps) simp
    then have "2 ^ bitlen (n div 2) = (2::nat) * 2 ^ (bitlen (n div 2) - 1)"
      by (cases "bitlen (n div 2)") simp_all
    then have "2 ^ bitlen (n div 2) \<le> n"
      using ih(1) by linarith
    moreover have "n < 2 * 2 ^ bitlen (n div 2)"
      using ih(2) by linarith
    ultimately show ?thesis by (simp add: b)
  qed
qed

lemma roundHalfEven_near: "\<bar>of_int (roundHalfEven x) - x\<bar> \<le> 1 / 2"
proof -
  have "of_int \<lfloor>x\<rfloor> \<le> x" "x < of_int \<lfloor>x\<rfloor> + 1"
    by linarith+
  then show ?thesis
    by (auto simp: roundHalfEven_def Let_def abs_le_iff)
qed

lemma pow2_power_int: "pow2 e = power_int 2 e"
  by (simp add: pow2_def power_int_def field_simps)

lemma pow2_pos: "0 < pow2 e"
  by (simp add: pow2_def)

lemma pow2_add: "pow2 (a + b) = pow2 a * pow2 b"
  by (simp add: pow2_power_int power_int_add)

lemma pow2_nat: "pow2 (int k) = 2 ^ k" "pow2 (- int k) = 1 / 2 ^ k"
  by (simp_all add: pow2_def)

lemma ilog2_bounds:
  assumes "0 < x"
  shows "pow2 (ilog2 x) \<le> x" and "x < pow2 (ilog2 x + 1)"
proof -
  have "pow2 (ilog2 x) \<le> x \<and> x < pow2 (ilog2 x + 1)"
  proof (cases "1 \<le> x")
    case True
    define n where "n = nat \<lfloor>x\<rfloor>"
    have n: "0 < n" "rat_of_nat n \<le> x" "x < rat_of_nat n + 1"
      using True unfolding n_def by simp_all linarith+
    obtain k where k: "bitlen n = Suc k"
      using bitlen_bounds [OF n(1)] n(1) by (cases "bitlen n") auto
    have b: "2 ^ k \<le> n" "n < 2 ^ Suc k"
      using bitlen_bounds [OF n(1)] by (simp_all add: k)
    have i: "ilog2 x = int k"
      using True by (simp add: ilog2_def n_def [symmetric] k)
    have l: "(2::rat) ^ k \<le> rat_of_nat n"
      using b(1) by (metis of_nat_le_iff of_nat_numeral of_nat_power)
    have u: "rat_of_nat n + 1 \<le> 2 ^ Suc k"
    proof -
      have "Suc n \<le> 2 ^ Suc k" using b(2) by simp
      then have "rat_of_nat (Suc n) \<le> rat_of_nat (2 ^ Suc k)" by (simp only: of_nat_le_iff)
      then show ?thesis by simp
    qed
    have p: "pow2 (int k + 1) = 2 ^ Suc k"
      using pow2_nat(1) [of "Suc k"] by (simp add: add.commute)
    have e1: "(2::rat) ^ k \<le> x" using l n(2) by linarith
    have e2: "x < 2 ^ Suc k" using u n(3) by linarith
    show ?thesis
      unfolding i p pow2_nat(1) using e1 e2 by blast
  next
    case False
    define y where "y = 1 / x"
    define m where "m = nat (\<lceil>y\<rceil> - 1)"
    have y: "1 < y" using False assms by (simp add: y_def)
    then have c: "2 \<le> \<lceil>y\<rceil>" by linarith
    have m: "0 < m" "rat_of_nat m < y" "y \<le> rat_of_nat m + 1"
      using c unfolding m_def by simp_all linarith+
    obtain j where j: "bitlen m = Suc j"
      using bitlen_bounds [OF m(1)] m(1) by (cases "bitlen m") auto
    have b: "2 ^ j \<le> m" "m < 2 ^ Suc j"
      using bitlen_bounds [OF m(1)] by (simp_all add: j)
    have i: "ilog2 x = - int (Suc j)"
      using False by (simp add: ilog2_def y_def [symmetric] m_def [symmetric] j)
    have lo: "(2::rat) ^ j < y"
    proof -
      have "(2::rat) ^ j \<le> rat_of_nat m"
        using b(1) by (metis of_nat_le_iff of_nat_numeral of_nat_power)
      then show ?thesis using m(2) by linarith
    qed
    have hi: "y \<le> 2 ^ Suc j"
    proof -
      have "Suc m \<le> 2 ^ Suc j" using b(2) by simp
      then have "rat_of_nat (Suc m) \<le> rat_of_nat (2 ^ Suc j)" by (simp only: of_nat_le_iff)
      then show ?thesis using m(3) by simp
    qed
    have x: "1 / y = x" by (simp add: y_def)
    have p1: "pow2 (ilog2 x) = 1 / 2 ^ Suc j"
      by (simp only: i pow2_nat(2))
    have p2: "pow2 (ilog2 x + 1) = 1 / 2 ^ j"
      using pow2_nat(2) [of j] by (simp add: i)
    have "1 / 2 ^ Suc j \<le> 1 / y"
      using hi y by (intro frac_le) simp_all
    then have 1: "pow2 (ilog2 x) \<le> x"
      by (simp only: p1 x)
    have "1 / y < 1 / 2 ^ j"
      using lo by (intro frac_less2) simp_all
    then have 2: "x < pow2 (ilog2 x + 1)"
      by (simp only: p2 x)
    show ?thesis using 1 2 by blast
  qed
  then show "pow2 (ilog2 x) \<le> x" and "x < pow2 (ilog2 x + 1)" by blast+
qed

lemma pow2_mono: "a \<le> b \<Longrightarrow> pow2 a \<le> pow2 b"
proof -
  assume "a \<le> b"
  then obtain k where k: "b = a + int k"
    using zle_iff_zadd by blast
  have "(1::rat) \<le> 2 ^ k" by simp
  then have "pow2 a * 1 \<le> pow2 a * 2 ^ k"
    using pow2_pos [of a] by (intro mult_left_mono) simp_all
  then show ?thesis
    by (simp add: k pow2_add pow2_nat(1))
qed

text \<open>
  \<open>toDouble x\<close> is a multiple of the spacing at \<open>x\<close>, with a significand of at most 53 bits,
  and no farther from \<open>x\<close> than half that spacing.
\<close>

lemma toDouble_near:
  assumes "x \<noteq> 0"
  shows "\<exists>m. toDouble x = of_int m * pow2 (max (- 1074) (ilog2 \<bar>x\<bar> - 52)) \<and>
             \<bar>m\<bar> \<le> 2 ^ 53 \<and>
             \<bar>toDouble x - x\<bar> \<le> pow2 (max (- 1074) (ilog2 \<bar>x\<bar> - 52)) / 2"
proof -
  let ?e = "max (- 1074) (ilog2 \<bar>x\<bar> - 52)"
  let ?m = "roundHalfEven (x / pow2 ?e)"
  have p: "0 < pow2 ?e" by (rule pow2_pos)
  have t: "toDouble x = of_int ?m * pow2 ?e"
    using assms by (simp add: toDouble_def Let_def)
  have r: "\<bar>of_int ?m - x / pow2 ?e\<bar> \<le> 1 / 2"
    by (rule roundHalfEven_near)
  have "\<bar>of_int ?m * pow2 ?e - x\<bar> = \<bar>of_int ?m - x / pow2 ?e\<bar> * pow2 ?e"
  proof -
    have "of_int ?m * pow2 ?e - x = (of_int ?m - x / pow2 ?e) * pow2 ?e"
      using p by (simp add: field_simps)
    then show ?thesis
      using p by (simp add: abs_mult)
  qed
  also have "\<dots> \<le> 1 / 2 * pow2 ?e"
    using r p by (intro mult_right_mono) simp_all
  finally have d: "\<bar>toDouble x - x\<bar> \<le> pow2 ?e / 2"
    by (simp add: t)
  have "\<bar>x\<bar> < pow2 (ilog2 \<bar>x\<bar> + 1)"
    using assms by (intro ilog2_bounds(2)) simp
  also have "\<dots> \<le> pow2 (?e + 53)"
    by (intro pow2_mono) simp
  also have "\<dots> = pow2 ?e * 2 ^ 53"
    using pow2_nat(1) [of 53] by (simp add: pow2_add)
  finally have "\<bar>x\<bar> / pow2 ?e < 2 ^ 53"
    using p by (simp add: field_simps)
  then have "\<bar>x / pow2 ?e\<bar> < 2 ^ 53"
    using p by simp
  then have "\<bar>rat_of_int ?m\<bar> < 2 ^ 53 + 1"
    using r by linarith
  then have "rat_of_int \<bar>?m\<bar> < rat_of_int (2 ^ 53 + 1)"
    by simp
  then have "\<bar>?m\<bar> < 2 ^ 53 + 1"
    by (simp only: of_int_less_iff)
  then have m: "\<bar>?m\<bar> \<le> 2 ^ 53" by simp
  show ?thesis
    using t m d by blast
qed

section \<open>Properties of the perceptron\<close>

lemma fadd_commute: "fadd x y = fadd y x"
  by (cases x; cases y) (simp_all add: add.commute)

lemma fadd_NaN [simp]: "fadd x NaN = NaN"
  by (cases x) simp_all

lemma fmul_NaN [simp]: "fmul x NaN = NaN" "fmul NaN x = NaN"
  by (cases x; simp)+

lemma forLoop_foldl:
  "length inputsArray = length weightsArray \<Longrightarrow>
   forLoop i s inputsArray weightsArray =
     foldl (\<lambda>s (x, w). fadd s (fmul x w)) s (drop i (zip inputsArray weightsArray))"
proof (induction i s inputsArray weightsArray rule: forLoop.induct)
  case (1 i s xs ws)
  show ?case
  proof (cases "i < length xs")
    case True
    then have d: "drop i (zip xs ws) = (xs ! i, ws ! i) # drop (Suc i) (zip xs ws)"
      using "1.prems" by (simp add: Cons_nth_drop_Suc [symmetric])
    show ?thesis
      using True "1.IH" [OF True "1.prems"] "1.prems"
      by (subst forLoop.simps) (simp add: d elemAt_def)
  next
    case False
    then show ?thesis
      using "1.prems" by (subst forLoop.simps) simp
  qed
qed

text \<open>
  Claim C1.  For input and weight vectors of the same length, the decision is
  \<open>(bias + \<Sum> inputs[i] * weights[i]) >= threshold\<close>, the products being added up from 0
  in index order with the rounding of binary64 arithmetic, and the bias added to the sum.
  The function reads its four arguments and nothing else, and writes nothing: the
  decision is a function of the inputs, the weights, the bias and the threshold alone.
\<close>

theorem perceptron_formula:
  assumes "length inputs = length weights"
  shows "decide inputs weights bias threshold
           = fge (fadd bias (weightedSum inputs weights)) threshold"
  using forLoop_foldl [OF assms, of 0 "Num 0"]
  by (simp add: decide_def summationOfInputsAndWeights_def weightedSum_def fadd_commute)

theorem perceptron_formula_witness:
  "length [Num 1, Num 0] = length [lit (7 / 10), lit (1 / 2)] \<and>
   decide [Num 1, Num 0] [lit (7 / 10), lit (1 / 2)] (fneg (lit (1 / 5))) (lit (1 / 2))
     = fge (fadd (fneg (lit (1 / 5))) (weightedSum [Num 1, Num 0] [lit (7 / 10), lit (1 / 2)]))
         (lit (1 / 2)) \<and>
   \<not> decide [Num 1, Num 0] [lit (7 / 10), lit (1 / 2)] (fneg (lit (1 / 5))) (lit (1 / 2))"
proof -
  have h: "length [Num 1, Num 0] = length [lit (7 / 10), lit (1 / 2)]" by simp
  have "\<not> decide [Num 1, Num 0] [lit (7 / 10), lit (1 / 2)] (fneg (lit (1 / 5))) (lit (1 / 2))"
    by (simp add: run dbl)
  then show ?thesis
    using perceptron_formula [OF h, of "fneg (lit (1 / 5))" "lit (1 / 2)"] by simp
qed

lemma forLoop_NaN: "forLoop i NaN xs ws = NaN"
proof (induction i "NaN" xs ws rule: forLoop.induct)
  case (1 i xs ws)
  then show ?case by (subst forLoop.simps) simp
qed

lemma forLoop_short:
  "length ws < length xs \<Longrightarrow> i \<le> length ws \<Longrightarrow> forLoop i s xs ws = NaN"
proof (induction i s xs ws rule: forLoop.induct)
  case (1 i s xs ws)
  show ?case
  proof (cases "i = length ws")
    case True
    then show ?thesis
      using "1.prems" by (subst forLoop.simps) (simp add: elemAt_def forLoop_NaN)
  next
    case False
    then have "i < length xs" "Suc i \<le> length ws" using "1.prems" by auto
    then show ?thesis
      using "1.IH" "1.prems" by (subst forLoop.simps) simp
  qed
qed

lemma forLoop_long:
  "length xs \<le> length ws \<Longrightarrow> forLoop i s xs ws = forLoop i s xs (take (length xs) ws)"
proof (induction i s xs ws rule: forLoop.induct)
  case (1 i s xs ws)
  show ?case
  proof (cases "i < length xs")
    case True
    then show ?thesis
      using "1.IH" "1.prems"
      by (subst forLoop.simps, subst (2) forLoop.simps) (simp add: elemAt_def)
  next
    case False
    then show ?thesis
      by (subst forLoop.simps, subst (2) forLoop.simps) simp
  qed
qed

text \<open>
  Claim C9 says that vectors of different lengths make the decision fail.  The function
  has no such check: both calls below return an ordinary boolean.
\<close>

theorem mismatch_counterexample:
  "decide [Num 1, Num 1] [Num 1] (Num 0) (Num 0) = False \<and>
   decide [Num 1] [Num 1, Num 5] (Num 0) (Num 1) = True"
  by (simp add: run dbl)

text \<open>
  Claim C9, amended.  With fewer weights than inputs the sum is NaN and the decision is
  \<open>False\<close> whatever the threshold; with more weights than inputs the surplus weights are
  ignored.  Nothing is raised in either case.
\<close>

theorem mismatch_is_silent:
  "(length weights < length inputs \<longrightarrow>
      summationOfInputsAndWeights s inputs weights bias = NaN \<and>
      decide inputs weights bias threshold = False) \<and>
   (length inputs \<le> length weights \<longrightarrow>
      summationOfInputsAndWeights s inputs weights bias
        = summationOfInputsAndWeights s inputs (take (length inputs) weights) bias \<and>
      decide inputs weights bias threshold
        = decide inputs (take (length inputs) weights) bias threshold)"
  using forLoop_long [of inputs weights]
  by (auto simp: summationOfInputsAndWeights_def decide_def fge_def forLoop_short)

theorem mismatch_is_silent_witness:
  "length [Num 1] < length [Num 1, Num 1] \<and>
   summationOfInputsAndWeights (Num 0) [Num 1, Num 1] [Num 1] (Num 0) = NaN \<and>
   decide [Num 1, Num 1] [Num 1] (Num 0) (Num 0) = False \<and>
   length [Num 1] \<le> length [Num 1, Num 5] \<and>
   decide [Num 1] [Num 1, Num 5] (Num 0) (Num 1) = decide [Num 1] [Num 1] (Num 0) (Num 1)"
  using mismatch_is_silent [of "[Num 1]" "[Num 1, Num 1]" "Num 0" "Num 0" "Num 0"]
    mismatch_is_silent [of "[Num 1, Num 5]" "[Num 1]" "Num 0" "Num 0" "Num 1"]
  by simp

section \<open>The shopping loop\<close>

lemma getZeroOrOne_eq: "getZeroOrOne w = (bit (random w (draws w)), w\<lparr>draws := Suc (draws w)\<rparr>)"
  by (simp add: getZeroOrOne_def bit_def)

lemma chooseItem_snd: "snd (chooseItem b loc br w) = w\<lparr>draws := Suc (draws w)\<rparr>"
  by (simp add: chooseItem_def getZeroOrOne_eq Let_def)

lemma chooseItem_fst: "fst (chooseItem b loc br w) = loc \<or> fst (chooseItem b loc br w) = br"
  by (simp add: chooseItem_def getZeroOrOne_eq Let_def)

lemma includesFrom_False: "False \<notin> set acts \<Longrightarrow> includesFrom acts False k = False"
  by (auto simp: includesFrom_def dest: in_set_dropD)

lemma includesFrom_True_0: "acts \<noteq> [] \<Longrightarrow> False \<notin> set acts \<Longrightarrow> includesFrom acts True 0 = True"
  by (cases acts) (auto simp: includesFrom_def)

lemma includesFrom_True_1:
  "Suc 0 < length acts \<Longrightarrow> False \<notin> set acts \<Longrightarrow> includesFrom acts True (Suc 0) = True"
proof -
  assume a: "Suc 0 < length acts" "False \<notin> set acts"
  then obtain x y zs where "acts = x # y # zs"
    by (cases acts; cases "tl acts") auto
  with a show ?thesis by (cases y) (auto simp: includesFrom_def)
qed

lemma includesFrom_flag:
  assumes "acts \<noteq> []" "False \<notin> set acts" "g \<longrightarrow> Suc 0 < length acts"
  shows "includesFrom acts g (Suc 0) = g" and "includesFrom acts g 0 = g"
proof -
  show "includesFrom acts g (Suc 0) = g"
    using assms by (cases g) (simp_all add: includesFrom_False includesFrom_True_1)
  show "includesFrom acts g 0 = g"
    using assms by (cases g) (simp_all add: includesFrom_False includesFrom_True_0)
qed

lemma loopInv_flag_length:
  assumes "loopInv (w, sh)"
  shows "gotEggs sh \<longrightarrow> Suc 0 < length (actionSequence (Agent w))"
    and "gotMilk sh \<longrightarrow> Suc 0 < length (actionSequence (Agent w))"
    and "gotLighter sh \<longrightarrow> Suc 0 < length (actionSequence (Agent w))"
  using assms by (auto simp: loopInv_def Let_def split: if_splits)

lemma loopInv_includes:
  assumes "loopInv (w, sh)"
  shows "includesFrom (actionSequence (Agent w)) (gotEggs sh) (Suc 0) = gotEggs sh"
    and "includesFrom (actionSequence (Agent w)) (gotMilk sh) (Suc 0) = gotMilk sh"
    and "includesFrom (actionSequence (Agent w)) (gotLighter sh) (Suc 0) = gotLighter sh"
    and "includesFrom (actionSequence (Agent w)) (gotEggs sh) 0 = gotEggs sh"
    and "includesFrom (actionSequence (Agent w)) (gotMilk sh) 0 = gotMilk sh"
    and "includesFrom (actionSequence (Agent w)) (gotLighter sh) 0 = gotLighter sh"
proof -
  have a: "actionSequence (Agent w) \<noteq> []" "False \<notin> set (actionSequence (Agent w))"
    using assms by (auto simp: loopInv_def Let_def)
  note f = includesFrom_flag [OF a]
  show "includesFrom (actionSequence (Agent w)) (gotEggs sh) (Suc 0) = gotEggs sh"
    by (rule f) (rule loopInv_flag_length [OF assms])
  show "includesFrom (actionSequence (Agent w)) (gotMilk sh) (Suc 0) = gotMilk sh"
    by (rule f) (rule loopInv_flag_length [OF assms])
  show "includesFrom (actionSequence (Agent w)) (gotLighter sh) (Suc 0) = gotLighter sh"
    by (rule f) (rule loopInv_flag_length [OF assms])
  show "includesFrom (actionSequence (Agent w)) (gotEggs sh) 0 = gotEggs sh"
    by (rule f) (rule loopInv_flag_length [OF assms])
  show "includesFrom (actionSequence (Agent w)) (gotMilk sh) 0 = gotMilk sh"
    by (rule f) (rule loopInv_flag_length [OF assms])
  show "includesFrom (actionSequence (Agent w)) (gotLighter sh) 0 = gotLighter sh"
    by (rule f) (rule loopInv_flag_length [OF assms])
qed

lemma checkList_eq:
  assumes "loopInv (w, sh\<lparr>checkListIncomplete := c\<rparr>)" and "checkListIncomplete sh"
  shows "checkList (w, sh)
           = (w, sh\<lparr>checkListIncomplete := \<not> (gotEggs sh \<and> gotMilk sh \<and> gotLighter sh)\<rparr>)"
proof -
  have "sh\<lparr>checkListIncomplete := True\<rparr> = sh"
    using assms(2) by (cases sh) simp
  then show ?thesis
    using loopInv_includes(4-6) [OF assms(1)] by (auto simp: checkList_def)
qed

lemma chooseItem_item:
  "item (fst (chooseItem b localEggs brandNameEggs w)) = ''eggs''"
  "item (fst (chooseItem b localMilk brandNameMilk w)) = ''milk''"
  "item (fst (chooseItem b localLighter brandNameLighter w)) = ''lighter''"
  using chooseItem_fst [of b localEggs brandNameEggs w]
    chooseItem_fst [of b localMilk brandNameMilk w]
    chooseItem_fst [of b localLighter brandNameLighter w]
  by (auto simp: localEggs_def brandNameEggs_def localMilk_def brandNameMilk_def
      localLighter_def brandNameLighter_def)

text \<open>The state that a buying branch hands to the closing test, and the state after it.\<close>

lemma loopInv_buyEggs:
  assumes "loopInv (w, sh)" and "\<not> gotEggs sh" and "item it = ''eggs''"
  shows "loopInv (v\<lparr>draws := d, Agent := addAction True (Agent w)\<rparr>,
           sh\<lparr>shoppingCart := shoppingCart sh @ [it], gotEggs := True,
              checkListIncomplete := \<not> (gotMilk sh \<and> gotLighter sh)\<rparr>)"
  using assms by (auto simp: loopInv_def Let_def named_def addAction_def)

lemma loopBody_buyEggs:
  assumes "loopInv (w, sh)" and "checkListIncomplete sh"
    and "toLowerCase r = ''l''" and "\<not> gotEggs sh"
  shows "loopBody b r (w, sh)
           = (w\<lparr>draws := Suc (draws w), Agent := addAction True (Agent w)\<rparr>,
              sh\<lparr>shoppingCart := shoppingCart sh @ [fst (chooseItem b localEggs brandNameEggs w)],
                 gotEggs := True,
                 checkListIncomplete := \<not> (gotMilk sh \<and> gotLighter sh)\<rparr>)"
proof -
  let ?it = "fst (chooseItem b localEggs brandNameEggs w)"
  let ?w = "w\<lparr>draws := Suc (draws w), Agent := addAction True (Agent w)\<rparr>"
  let ?sh = "sh\<lparr>shoppingCart := shoppingCart sh @ [?it], gotEggs := True\<rparr>"
  have i: "loopInv (?w, ?sh\<lparr>checkListIncomplete := \<not> (gotMilk sh \<and> gotLighter sh)\<rparr>)"
    using loopInv_buyEggs [OF assms(1,4) chooseItem_item(1), where v = w and d = "Suc (draws w)"]
    by simp
  have "loopBody b r (w, sh) = checkList (?w, ?sh)"
    using assms(3,4) loopInv_includes [OF assms(1)]
    by (simp add: loopBody_def case_prod_beta chooseItem_snd)
  also have "\<dots> = (?w, ?sh\<lparr>checkListIncomplete := \<not> (gotMilk sh \<and> gotLighter sh)\<rparr>)"
    using checkList_eq [OF i] assms(2) by simp
  finally show ?thesis by simp
qed

lemma loopInv_buyMilk:
  assumes "loopInv (w, sh)" and "\<not> gotMilk sh" and "item it = ''milk''"
  shows "loopInv (v\<lparr>draws := d, Agent := addAction True (Agent w)\<rparr>,
           sh\<lparr>shoppingCart := shoppingCart sh @ [it], gotMilk := True,
              checkListIncomplete := \<not> (gotEggs sh \<and> gotLighter sh)\<rparr>)"
  using assms by (auto simp: loopInv_def Let_def named_def addAction_def)

lemma loopBody_buyMilk:
  assumes "loopInv (w, sh)" and "checkListIncomplete sh"
    and "toLowerCase r = ''r''" and "\<not> gotMilk sh"
  shows "loopBody b r (w, sh)
           = (w\<lparr>draws := Suc (draws w), Agent := addAction True (Agent w)\<rparr>,
              sh\<lparr>shoppingCart := shoppingCart sh @ [fst (chooseItem b localMilk brandNameMilk w)],
                 gotMilk := True,
                 checkListIncomplete := \<not> (gotEggs sh \<and> gotLighter sh)\<rparr>)"
proof -
  let ?it = "fst (chooseItem b localMilk brandNameMilk w)"
  let ?w = "w\<lparr>draws := Suc (draws w), Agent := addAction True (Agent w)\<rparr>"
  let ?sh = "sh\<lparr>shoppingCart := shoppingCart sh @ [?it], gotMilk := True\<rparr>"
  have i: "loopInv (?w, ?sh\<lparr>checkListIncomplete := \<not> (gotEggs sh \<and> gotLighter sh)\<rparr>)"
    using loopInv_buyMilk [OF assms(1,4) chooseItem_item(2), where v = w and d = "Suc (draws w)"]
    by simp
  have "loopBody b r (w, sh) = checkList (?w, ?sh)"
    using assms(3,4) loopInv_includes [OF assms(1)]
    by (simp add: loopBody_def case_prod_beta chooseItem_snd)
  also have "\<dots> = (?w, ?sh\<lparr>checkListIncomplete := \<not> (gotEggs sh \<and> gotLighter sh)\<rparr>)"
    using checkList_eq [OF i] assms(2) by simp
  finally show ?thesis by simp
qed

lemma loopInv_buyLighter:
  assumes "loopInv (w, sh)" and "\<not> gotLighter sh" and "item it = ''lighter''"
  shows "loopInv (v\<lparr>draws := d, Agent := addAction True (Agent w)\<rparr>,
           sh\<lparr>shoppingCart := shoppingCart sh @ [it], gotLighter := True,
              checkListIncomplete := \<not> (gotEggs sh \<and> gotMilk sh)\<rparr>)"
  using assms by (auto simp: loopInv_def Let_def named_def addAction_def)

lemma loopBody_buyLighter:
  assumes "loopInv (w, sh)" and "checkListIncomplete sh"
    and "toLowerCase r = ''s''" and "\<not> gotLighter sh"
  shows "loopBody b r (w, sh)
           = (w\<lparr>draws := Suc (draws w), Agent := addAction True (Agent w)\<rparr>,
              sh\<lparr>shoppingCart := shoppingCart sh @ [fst (chooseItem b localLighter brandNameLighter w)],
                 gotLighter := True,
                 checkListIncomplete := \<not> (gotEggs sh \<and> gotMilk sh)\<rparr>)"
proof -
  let ?it = "fst (chooseItem b localLighter brandNameLighter w)"
  let ?w = "w\<lparr>draws := Suc (draws w), Agent := addAction True (Agent w)\<rparr>"
  let ?sh = "sh\<lparr>shoppingCart := shoppingCart sh @ [?it], gotLighter := True\<rparr>"
  have i: "loopInv (?w, ?sh\<lparr>checkListIncomplete := \<not> (gotEggs sh \<and> gotMilk sh)\<rparr>)"
    using loopInv_buyLighter [OF assms(1,4) chooseItem_item(3), where v = w and d = "Suc (draws w)"]
    by simp
  have "loopBody b r (w, sh) = checkList (?w, ?sh)"
    using assms(3,4) loopInv_includes [OF assms(1)]
    by (simp add: loopBody_def case_prod_beta chooseItem_snd)
  also have "\<dots> = (?w, ?sh\<lparr>checkListIncomplete := \<not> (gotEggs sh \<and> gotMilk sh)\<rparr>)"
    using checkList_eq [OF i] assms(2) by simp
  finally show ?thesis by simp
qed

text \<open>An iteration that buys nothing changes nothing.\<close>

lemma loopBody_idle:
  assumes "loopInv (w, sh)" and "checkListIncomplete sh"
    and "toLowerCase r = ''l'' \<longrightarrow> gotEggs sh"
    and "toLowerCase r = ''r'' \<longrightarrow> gotMilk sh"
    and "toLowerCase r = ''s'' \<longrightarrow> gotLighter sh"
  shows "loopBody b r (w, sh) = (w, sh)"
proof -
  have i: "loopInv (w, sh\<lparr>checkListIncomplete := checkListIncomplete sh\<rparr>)"
    using assms(1) by simp
  have "(\<not> (gotEggs sh \<and> gotMilk sh \<and> gotLighter sh)) = checkListIncomplete sh"
    using assms(1) by (auto simp: loopInv_def Let_def)
  then have "checkList (w, sh) = (w, sh)"
    using checkList_eq [OF i assms(2)] by simp
  then show ?thesis
    using assms(3-5) loopInv_includes [OF assms(1)]
    by (auto simp: loopBody_def)
qed

lemma loopBody_step:
  assumes "loopInv (w, sh)" and "checkListIncomplete sh"
  shows "loopInv (loopBody b r (w, sh))"
    and "gotEggs (snd (loopBody b r (w, sh))) = (gotEggs sh \<or> toLowerCase r = ''l'')"
    and "gotMilk (snd (loopBody b r (w, sh))) = (gotMilk sh \<or> toLowerCase r = ''r'')"
    and "gotLighter (snd (loopBody b r (w, sh))) = (gotLighter sh \<or> toLowerCase r = ''s'')"
    and "(fst (loopBody b r (w, sh)) = w \<or>
       fst (loopBody b r (w, sh))
         = w\<lparr>draws := Suc (draws w), Agent := addAction True (Agent w)\<rparr>)"
proof -
  consider (eggs) "toLowerCase r = ''l''" "\<not> gotEggs sh"
    | (milk) "toLowerCase r = ''r''" "\<not> gotMilk sh"
    | (lighter) "toLowerCase r = ''s''" "\<not> gotLighter sh"
    | (idle) "toLowerCase r = ''l'' \<longrightarrow> gotEggs sh" "toLowerCase r = ''r'' \<longrightarrow> gotMilk sh"
        "toLowerCase r = ''s'' \<longrightarrow> gotLighter sh"
    by blast
  then have "loopInv (loopBody b r (w, sh)) \<and>
      gotEggs (snd (loopBody b r (w, sh))) = (gotEggs sh \<or> toLowerCase r = ''l'') \<and>
      gotMilk (snd (loopBody b r (w, sh))) = (gotMilk sh \<or> toLowerCase r = ''r'') \<and>
      gotLighter (snd (loopBody b r (w, sh))) = (gotLighter sh \<or> toLowerCase r = ''s'') \<and>
      (fst (loopBody b r (w, sh)) = w \<or>
       fst (loopBody b r (w, sh))
         = w\<lparr>draws := Suc (draws w), Agent := addAction True (Agent w)\<rparr>)"
  proof cases
    case eggs
    show ?thesis
      using eggs loopInv_buyEggs [OF assms(1) eggs(2) chooseItem_item(1)]
      by (simp add: loopBody_buyEggs [OF assms eggs])
  next
    case milk
    show ?thesis
      using milk loopInv_buyMilk [OF assms(1) milk(2) chooseItem_item(2)]
      by (simp add: loopBody_buyMilk [OF assms milk])
  next
    case lighter
    show ?thesis
      using lighter loopInv_buyLighter [OF assms(1) lighter(2) chooseItem_item(3)]
      by (simp add: loopBody_buyLighter [OF assms lighter])
  next
    case idle
    show ?thesis
      using idle assms(1) by (auto simp: loopBody_idle [OF assms idle])
  qed
  then show "loopInv (loopBody b r (w, sh))"
    and "gotEggs (snd (loopBody b r (w, sh))) = (gotEggs sh \<or> toLowerCase r = ''l'')"
    and "gotMilk (snd (loopBody b r (w, sh))) = (gotMilk sh \<or> toLowerCase r = ''r'')"
    and "gotLighter (snd (loopBody b r (w, sh))) = (gotLighter sh \<or> toLowerCase r = ''s'')"
    and "(fst (loopBody b r (w, sh)) = w \<or>
       fst (loopBody b r (w, sh))
         = w\<lparr>draws := Suc (draws w), Agent := addAction True (Agent w)\<rparr>)"
    by blast+
qed

lemma whileLoop_run:
  assumes "loopInv ws"
  shows "loopInv (whileLoop b lines ws) \<and>
    gotEggs (snd (whileLoop b lines ws)) = (gotEggs (snd ws) \<or> ''l'' \<in> toLowerCase ` set lines) \<and>
    gotMilk (snd (whileLoop b lines ws)) = (gotMilk (snd ws) \<or> ''r'' \<in> toLowerCase ` set lines) \<and>
    gotLighter (snd (whileLoop b lines ws))
      = (gotLighter (snd ws) \<or> ''s'' \<in> toLowerCase ` set lines) \<and>
    (\<exists>d a. fst (whileLoop b lines ws) = (fst ws)\<lparr>draws := d, Agent := a\<rparr>)"
  using assms
proof (induction lines arbitrary: ws)
  case Nil
  have "fst ws = (fst ws)\<lparr>draws := draws (fst ws), Agent := Agent (fst ws)\<rparr>" by simp
  then have "\<exists>d a. fst ws = (fst ws)\<lparr>draws := d, Agent := a\<rparr>" by blast
  with Nil show ?case by simp
next
  case (Cons r rest)
  obtain w sh where ws: "ws = (w, sh)" by (cases ws)
  show ?case
  proof (cases "checkListIncomplete sh")
    case True
    note s = loopBody_step [OF Cons.prems [unfolded ws] True, of b r]
    let ?ws1 = "loopBody b r (w, sh)"
    have step: "whileLoop b (r # rest) ws = whileLoop b rest ?ws1"
      using True ws by simp
    have step': "whileLoop b (r # rest) (w, sh) = whileLoop b rest ?ws1"
      using True by simp
    from Cons.IH [OF s(1)]
    have i1: "loopInv (whileLoop b rest ?ws1)"
      and i2: "gotEggs (snd (whileLoop b rest ?ws1))
                 = (gotEggs (snd ?ws1) \<or> ''l'' \<in> toLowerCase ` set rest)"
      and i3: "gotMilk (snd (whileLoop b rest ?ws1))
                 = (gotMilk (snd ?ws1) \<or> ''r'' \<in> toLowerCase ` set rest)"
      and i4: "gotLighter (snd (whileLoop b rest ?ws1))
                 = (gotLighter (snd ?ws1) \<or> ''s'' \<in> toLowerCase ` set rest)"
      and i5: "\<exists>d a. fst (whileLoop b rest ?ws1) = (fst ?ws1)\<lparr>draws := d, Agent := a\<rparr>"
      by blast+
    have "w = w\<lparr>draws := draws w, Agent := Agent w\<rparr>" by simp
    then have "\<exists>d a. fst ?ws1 = w\<lparr>draws := d, Agent := a\<rparr>"
      using s(5) by metis
    then obtain d1 a1 where e1: "fst ?ws1 = w\<lparr>draws := d1, Agent := a1\<rparr>"
      by blast
    obtain d2 a2 where e2: "fst (whileLoop b rest ?ws1) = (fst ?ws1)\<lparr>draws := d2, Agent := a2\<rparr>"
      using i5 by blast
    have "fst (whileLoop b rest ?ws1) = w\<lparr>draws := d2, Agent := a2\<rparr>"
      by (simp add: e2 e1)
    then have "fst (whileLoop b (r # rest) ws) = (fst ws)\<lparr>draws := d2, Agent := a2\<rparr>"
      using True ws by simp
    then have w: "\<exists>d a. fst (whileLoop b (r # rest) ws) = (fst ws)\<lparr>draws := d, Agent := a\<rparr>"
      by blast
    have m: "\<And>c. (c \<in> toLowerCase ` set (r # rest))
                 = (toLowerCase r = c \<or> c \<in> toLowerCase ` set rest)"
      by auto
    have f: "gotEggs (snd (whileLoop b (r # rest) ws))
          = (gotEggs (snd ws) \<or> ''l'' \<in> toLowerCase ` set (r # rest))"
      "gotMilk (snd (whileLoop b (r # rest) ws))
          = (gotMilk (snd ws) \<or> ''r'' \<in> toLowerCase ` set (r # rest))"
      "gotLighter (snd (whileLoop b (r # rest) ws))
          = (gotLighter (snd ws) \<or> ''s'' \<in> toLowerCase ` set (r # rest))"
      unfolding ws snd_conv step' i2 i3 i4 s(2-4) m by blast+
    have "loopInv (whileLoop b (r # rest) ws)"
      unfolding step by (rule i1)
    with f w show ?thesis by blast
  next
    case False
    then have g: "gotEggs sh \<and> gotMilk sh \<and> gotLighter sh"
      using Cons.prems ws by (auto simp: loopInv_def Let_def)
    have "w = w\<lparr>draws := draws w, Agent := Agent w\<rparr>" by simp
    then have "\<exists>d a. w = w\<lparr>draws := d, Agent := a\<rparr>" by blast
    then show ?thesis
      using g False Cons.prems ws by simp
  qed
qed

lemmas lower = toLowerCase_def lowerChar_def char_of_def bit_iff_odd

lemma allTrue: 
  assumes "set (xs :: bool list) = {True}" 
  shows "xs \<noteq> []" and "False \<notin> set xs"
proof -
  show "xs \<noteq> []" using assms by (cases xs) simp_all
  show "False \<notin> set xs" by (simp add: assms)
qed

lemma loopInv_enterLoop:
  assumes "set (actionSequence (Agent w)) = {True}"
  shows "loopInv (enterLoop w)"
  using allTrue [OF assms] by (simp add: loopInv_def enterLoop_def named_def Let_def)

lemma takeBusOrTaxi_actions:
  "actionSequence (Agent (takeBusOrTaxi w)) = actionSequence (Agent w) @ [True]"
  by (simp add: takeBusOrTaxi_def getZeroOrOne_eq Let_def addAction_def addEnvironment_def)

lemma start_actions: "set (actionSequence (Agent (takeBusOrTaxi (start rnd)))) = {True}"
  by (simp add: takeBusOrTaxi_actions) (simp add: start_def addEnvironment_def)

lemma enterStore_actions: "actionSequence (Agent (enterStore w)) = actionSequence (Agent w)"
  by (simp add: enterStore_def addEnvironment_def Let_def)

lemma loop_result:
  assumes "set (actionSequence (Agent w)) = {True}"
    and "whileLoop b lines (enterLoop w) = (w', sh')"
  shows "length (filter (\<lambda>it. item it = ''eggs'') (shoppingCart sh'))
           = (if gotEggs sh' then 1 else 0) \<and>
         length (filter (\<lambda>it. item it = ''milk'') (shoppingCart sh'))
           = (if gotMilk sh' then 1 else 0) \<and>
         length (filter (\<lambda>it. item it = ''lighter'') (shoppingCart sh'))
           = (if gotLighter sh' then 1 else 0) \<and>
         length (shoppingCart sh')
           = (if gotEggs sh' then 1 else 0) + (if gotMilk sh' then 1 else 0)
               + (if gotLighter sh' then 1 else 0) \<and>
         gotEggs sh' = (''l'' \<in> toLowerCase ` set lines) \<and>
         gotMilk sh' = (''r'' \<in> toLowerCase ` set lines) \<and>
         gotLighter sh' = (''s'' \<in> toLowerCase ` set lines) \<and>
         (\<not> checkListIncomplete sh') = (gotEggs sh' \<and> gotMilk sh' \<and> gotLighter sh')"
proof -
  note run = whileLoop_run [OF loopInv_enterLoop [OF assms(1)], of b lines]
  have i: "loopInv (w', sh')" using run assms(2) by simp
  have f: "gotEggs sh' = (''l'' \<in> toLowerCase ` set lines)"
    "gotMilk sh' = (''r'' \<in> toLowerCase ` set lines)"
    "gotLighter sh' = (''s'' \<in> toLowerCase ` set lines)"
    using run unfolding assms(2) by (simp_all add: enterLoop_def)
  show ?thesis
    using i f by (auto simp: loopInv_def Let_def named_def)
qed

text \<open>
  Claim C2.  From any state in which the action history is non-empty and holds \<open>True\<close>
  only (as it does when \<^verbatim>\<open>storeScenario\<close> is entered), and for every list of lines typed
  at the prompt: the cart holds each of eggs, milk and lighter at most once, exactly the
  items whose flag is set; a flag is set exactly when its letter (in either case) is among
  the lines; and the loop has ended exactly when the three flags are set.  So the three
  letters in any order end the loop, and a repeated letter neither buys again nor ends it.
\<close>

theorem checklist_loop:
  assumes "set (actionSequence (Agent w)) = {True}"
    and "whileLoop b lines (enterLoop w) = (w', sh')"
  shows "length (filter (\<lambda>it. item it = ''eggs'') (shoppingCart sh'))
           = (if gotEggs sh' then 1 else 0) \<and>
         length (filter (\<lambda>it. item it = ''milk'') (shoppingCart sh'))
           = (if gotMilk sh' then 1 else 0) \<and>
         length (filter (\<lambda>it. item it = ''lighter'') (shoppingCart sh'))
           = (if gotLighter sh' then 1 else 0) \<and>
         length (shoppingCart sh')
           = (if gotEggs sh' then 1 else 0) + (if gotMilk sh' then 1 else 0)
               + (if gotLighter sh' then 1 else 0) \<and>
         gotEggs sh' = (''l'' \<in> toLowerCase ` set lines) \<and>
         gotMilk sh' = (''r'' \<in> toLowerCase ` set lines) \<and>
         gotLighter sh' = (''s'' \<in> toLowerCase ` set lines) \<and>
         (\<not> checkListIncomplete sh') = (gotEggs sh' \<and> gotMilk sh' \<and> gotLighter sh')"
  using assms by (rule loop_result)

theorem checklist_loop_witness:
  "\<exists>w1 sh1 w2 sh2.
     set (actionSequence (Agent (takeBusOrTaxi (start (\<lambda>n. False))))) = {True} \<and>
     whileLoop (Num 0) [''l'', ''L'', ''x'', ''r''] (enterLoop (takeBusOrTaxi (start (\<lambda>n. False))))
       = (w1, sh1) \<and>
     length (filter (\<lambda>it. item it = ''eggs'') (shoppingCart sh1)) = 1 \<and>
     length (shoppingCart sh1) = 2 \<and> gotEggs sh1 \<and> gotMilk sh1 \<and> \<not> gotLighter sh1 \<and>
     checkListIncomplete sh1 \<and>
     whileLoop (Num 0) [''S'', ''l'', ''r''] (enterLoop (takeBusOrTaxi (start (\<lambda>n. False))))
       = (w2, sh2) \<and>
     length (shoppingCart sh2) = 3 \<and> \<not> checkListIncomplete sh2"
proof -
  let ?w = "takeBusOrTaxi (start (\<lambda>n. False))"
  obtain w1 sh1 where r1: "whileLoop (Num 0) [''l'', ''L'', ''x'', ''r''] (enterLoop ?w) = (w1, sh1)"
    by (cases "whileLoop (Num 0) [''l'', ''L'', ''x'', ''r''] (enterLoop ?w)")
  obtain w2 sh2 where r2: "whileLoop (Num 0) [''S'', ''l'', ''r''] (enterLoop ?w) = (w2, sh2)"
    by (cases "whileLoop (Num 0) [''S'', ''l'', ''r''] (enterLoop ?w)")
  have p1: "length (filter (\<lambda>it. item it = ''eggs'') (shoppingCart sh1)) = 1 \<and>
     length (shoppingCart sh1) = 2 \<and> gotEggs sh1 \<and> gotMilk sh1 \<and> \<not> gotLighter sh1 \<and>
     checkListIncomplete sh1"
    using checklist_loop [OF start_actions r1] by (auto simp: lower)
  have p2: "length (shoppingCart sh2) = 3 \<and> \<not> checkListIncomplete sh2"
    using checklist_loop [OF start_actions r2] by (auto simp: lower)
  show ?thesis
    using start_actions [of "\<lambda>n. False"] r1 r2 p1 p2 by blast
qed

text \<open>
  Claim C8.  In every state that the loop reaches and in which it is still running, a line
  that is none of \<^verbatim>\<open>l\<close>, \<^verbatim>\<open>r\<close>, \<^verbatim>\<open>s\<close> (in either case), or that names a section
  already visited, leaves the whole state as it is (wallet, cart, flags, action history,
  random draws), and the loop goes on to the next line.
\<close>

theorem idle_iteration:
  assumes "set (actionSequence (Agent w)) = {True}"
    and "whileLoop b lines (enterLoop w) = (w', sh')"
    and "checkListIncomplete sh'"
    and "toLowerCase r \<notin> {''l'', ''r'', ''s''} \<or> toLowerCase r = ''l'' \<and> gotEggs sh' \<or>
         toLowerCase r = ''r'' \<and> gotMilk sh' \<or> toLowerCase r = ''s'' \<and> gotLighter sh'"
  shows "loopBody b r (w', sh') = (w', sh') \<and>
         whileLoop b (r # rest) (w', sh') = whileLoop b rest (w', sh')"
proof -
  have i: "loopInv (w', sh')"
    using whileLoop_run [OF loopInv_enterLoop [OF assms(1)], of b lines] assms(2) by simp
  have "loopBody b r (w', sh') = (w', sh')"
    using assms(4) by (intro loopBody_idle [OF i assms(3)]) auto
  then show ?thesis using assms(3) by simp
qed

theorem idle_iteration_witness:
  "\<exists>w' sh'.
     set (actionSequence (Agent (takeBusOrTaxi (start (\<lambda>n. False))))) = {True} \<and>
     whileLoop (Num 0) [''l''] (enterLoop (takeBusOrTaxi (start (\<lambda>n. False)))) = (w', sh') \<and>
     checkListIncomplete sh' \<and>
     toLowerCase ''L'' = ''l'' \<and> gotEggs sh' \<and>
     loopBody (Num 0) ''L'' (w', sh') = (w', sh') \<and>
     toLowerCase ''x'' \<notin> {''l'', ''r'', ''s''} \<and>
     loopBody (Num 0) ''x'' (w', sh') = (w', sh') \<and>
     whileLoop (Num 0) [''x'', ''L''] (w', sh') = (w', sh')"
proof -
  let ?w = "takeBusOrTaxi (start (\<lambda>n. False))"
  obtain w' sh' where r: "whileLoop (Num 0) [''l''] (enterLoop ?w) = (w', sh')"
    by (cases "whileLoop (Num 0) [''l''] (enterLoop ?w)")
  have f: "checkListIncomplete sh'" "gotEggs sh'"
    using loop_result [OF start_actions r] by (auto simp: lower)
  have l: "toLowerCase ''L'' = ''l''" "toLowerCase ''x'' \<notin> {''l'', ''r'', ''s''}"
    by (simp_all add: lower)
  have a: "loopBody (Num 0) ''L'' (w', sh') = (w', sh')"
    using idle_iteration [OF start_actions r f(1), of "''L''" "[]"] l(1) f(2) by simp
  have b: "loopBody (Num 0) ''x'' (w', sh') = (w', sh') \<and>
           whileLoop (Num 0) [''x'', ''L''] (w', sh') = whileLoop (Num 0) [''L''] (w', sh')"
    using idle_iteration [OF start_actions r f(1), of "''x''" "[''L'']"] l(2) by simp
  have "whileLoop (Num 0) [''x'', ''L''] (w', sh') = (w', sh')"
    using a b f(1) by simp
  then show ?thesis
    using start_actions [of "\<lambda>n. False"] r f l a b by blast
qed

section \<open>The three decisions on the values they can meet\<close>

lemma outbound_table:
  "decide [Num 1, bit x, bit y, bit z] [lit (7 / 10), lit (1 / 2), lit (2 / 5), lit (3 / 10)]
     (fneg (lit (1 / 5))) (lit (3 / 2)) = (x \<and> y \<and> z)"
  by (cases x; cases y; cases z) (simp_all add: bit_def run dbl)

lemma return_table:
  "decide [Num 1, bit x, bit y, bit z, bit m]
     [lit (7 / 10), fneg (lit (1 / 2)), lit (3 / 5), fneg (lit (3 / 10)), lit (2 / 5)]
     (fneg (lit (1 / 5))) (lit (13 / 10)) = (\<not> x \<and> y \<and> \<not> z \<and> m)"
  by (cases x; cases y; cases z; cases m) (simp_all add: bit_def run dbl)

lemma purchase_table:
  "decide [Num 1, bit x, Num 1] [lit (3 / 5), fneg (lit (3 / 10)), lit (3 / 5)]
     (fneg (lit (1 / 5))) (lit 1) = (\<not> x)"
  "decide [Num 1, bit x, Num 1] [lit (3 / 5), fneg (lit (3 / 10)), lit (3 / 5)]
     (Num 0) (lit 1) = (\<not> x)"
  by (cases x; simp add: bit_def run dbl)+

lemma outbound_sums:
  "summationOfInputsAndWeights (Num 0) [Num 1, Num 0, Num 0, Num 0]
     [lit (7 / 10), lit (1 / 2), lit (2 / 5), lit (3 / 10)] (fneg (lit (1 / 5)))
     = Num (1 / 2 - 1 / 2 ^ 54)"
  "summationOfInputsAndWeights (Num 0) [Num 1, Num 1, Num 1, Num 1]
     [lit (7 / 10), lit (1 / 2), lit (2 / 5), lit (3 / 10)] (fneg (lit (1 / 5)))
     = Num (17 / 10 + 1 / (5 * 2 ^ 50))"
  by (simp_all add: run dbl)

lemma purchase_sum:
  "summationOfInputsAndWeights (Num 0) [Num 1, Num 1, Num 1]
     [lit (3 / 5), fneg (lit (3 / 10)), lit (3 / 5)] (fneg (lit (1 / 5))) = lit (7 / 10)"
  by (simp add: run dbl)

lemma fares:
  "fsub (Num 75) (Num 10) = Num 65" "fsub (Num 75) (Num 5) = Num 70"
  by (simp_all add: run dbl)

lemma takeBusOrTaxi_eq:
  "takeBusOrTaxi w =
     (if random w (draws w) \<and> random w (Suc (draws w)) \<and> random w (Suc (Suc (draws w)))
      then w\<lparr>atHome := False, onTheStreets := False,
             Agent := addAction True (addEnvironment True (Agent w)),
             draws := Suc (Suc (Suc (draws w))),
             money := fsub (money w) (Num 10), tookTaxi := True\<rparr>
      else w\<lparr>atHome := False, onTheStreets := False,
             Agent := addAction True (addEnvironment True (Agent w)),
             draws := Suc (Suc (Suc (draws w))),
             money := fsub (money w) (Num 5), tookBus := True\<rparr>)"
  by (simp add: takeBusOrTaxi_def getZeroOrOne_eq Let_def outbound_table [unfolded decide_def])

lemma takeTaxiOrBus_eq:
  "takeTaxiOrBus w =
     (if \<not> random w (draws w) \<and> random w (Suc (draws w)) \<and> \<not> random w (Suc (Suc (draws w)))
         \<and> flt (money w) (Num 40)
      then w\<lparr>atStore := False, onTheStreets := False,
             Agent := addAction True (addEnvironment True (Agent w)),
             draws := Suc (Suc (Suc (draws w))),
             money := fsub (money w) (Num 5), tookBusHome := True\<rparr>
      else w\<lparr>atStore := False, onTheStreets := False,
             Agent := addAction True (addEnvironment True (Agent w)),
             draws := Suc (Suc (Suc (draws w))),
             money := fsub (money w) (Num 11), tookTaxiHome := True\<rparr>)"
proof -
  have m: "(if flt (money w) (Num 40) then Num 1 else Num 0) = bit (flt (money w) (Num 40))"
    by (simp add: bit_def)
  show ?thesis
    by (simp add: takeTaxiOrBus_def getZeroOrOne_eq Let_def m return_table [unfolded decide_def])
qed

lemma chooseItem_eq:
  "chooseItem b loc br w =
     (if decide [Num 1, bit (random w (draws w)), Num 1]
           [lit (3 / 5), fneg (lit (3 / 10)), lit (3 / 5)] b (lit 1) then br else loc,
      w\<lparr>draws := Suc (draws w)\<rparr>)"
  by (simp add: chooseItem_def getZeroOrOne_eq Let_def decide_def)

lemma checkList_cart: "shoppingCart (snd (checkList ws)) = shoppingCart (snd ws)"
  by (cases ws) (simp add: checkList_def)

lemma storeScenario_start:
  "storeScenario lines (takeBusOrTaxi (start rnd))
     = storeBranch (if tookTaxi (takeBusOrTaxi (start rnd)) then fneg (lit (1 / 5)) else Num 0)
         lines (enterStore (takeBusOrTaxi (start rnd)))"
  "tookTaxi (takeBusOrTaxi (start rnd)) = (rnd 0 \<and> rnd 1 \<and> rnd 2)"
  "tookBus (takeBusOrTaxi (start rnd)) = (\<not> (rnd 0 \<and> rnd 1 \<and> rnd 2))"
proof -
  have t: "tookTaxi (takeBusOrTaxi (start rnd)) = (rnd 0 \<and> rnd 1 \<and> rnd 2)"
    "tookBus (takeBusOrTaxi (start rnd)) = (\<not> (rnd 0 \<and> rnd 1 \<and> rnd 2))"
    by (simp_all add: takeBusOrTaxi_eq) (simp_all add: start_def numeral_2_eq_2)
  have a: "actionSequence (Agent (enterStore (takeBusOrTaxi (start rnd)))) = [True]"
    by (simp add: enterStore_actions takeBusOrTaxi_actions) (simp add: start_def addEnvironment_def)
  have e: "tookTaxi (enterStore (takeBusOrTaxi (start rnd))) = tookTaxi (takeBusOrTaxi (start rnd))"
    "tookBus (enterStore (takeBusOrTaxi (start rnd))) = tookBus (takeBusOrTaxi (start rnd))"
    by (simp_all add: enterStore_def Let_def)
  show "storeScenario lines (takeBusOrTaxi (start rnd))
     = storeBranch (if tookTaxi (takeBusOrTaxi (start rnd)) then fneg (lit (1 / 5)) else Num 0)
         lines (enterStore (takeBusOrTaxi (start rnd)))"
    unfolding storeScenario_def Let_def a e t by (auto simp: includesFrom_def)
  show "tookTaxi (takeBusOrTaxi (start rnd)) = (rnd 0 \<and> rnd 1 \<and> rnd 2)"
    "tookBus (takeBusOrTaxi (start rnd)) = (\<not> (rnd 0 \<and> rnd 1 \<and> rnd 2))"
    by (rule t)+
qed

section \<open>The checkout\<close>

lemma subTotalLoop_foldl:
  "subTotalLoop i s cart = foldl (\<lambda>subTotal it. fadd subTotal (price it)) s (drop i cart)"
proof (induction i s cart rule: subTotalLoop.induct)
  case (1 i s cart)
  show ?case
  proof (cases "i < length cart")
    case True
    then have d: "drop i cart = cart ! i # drop (Suc i) cart"
      by (simp add: Cons_nth_drop_Suc)
    show ?thesis
      using True "1.IH" [OF True] by (subst subTotalLoop.simps) (simp add: d)
  next
    case False
    then show ?thesis by (subst subTotalLoop.simps) simp
  qed
qed

lemma shoppingSubTotal_foldl:
  "shoppingSubTotal cart = foldl (\<lambda>subTotal it. fadd subTotal (price it)) (Num 0) cart"
  by (simp add: shoppingSubTotal_def subTotalLoop_foldl)

lemma shoppingSubTotal_append:
  "shoppingSubTotal (cart @ [it]) = fadd (shoppingSubTotal cart) (price it)"
  by (simp add: shoppingSubTotal_foldl)

lemma mk_small:
  assumes "n \<le> 22"
  shows "mk (of_nat n) = Num (of_nat n)"
proof -
  have "n \<in> {22, 21, 20, 19, 18, 17, 16, 15, 14, 13, 12, 11, 10, 9, 8, 7, 6, 5, 4, 3, 2, 1, 0}"
    using assms unfolding insert_iff empty_iff by arith
  then show ?thesis
    by (elim insertE emptyE) (simp_all add: dbl)
qed

lemma fadd_small:
  assumes "a + p \<le> 22"
  shows "fadd (Num (of_nat a)) (Num (of_nat p)) = Num (of_nat (a + p))"
  using mk_small [OF assms] by simp

lemma checkout_bound:
  assumes "16 \<le> n" and "n \<le> 22"
  shows "fge (fsub (Num 65) (fadd (Num (of_nat n)) (fmul (Num (of_nat n)) (lit (1 / 20)))))
           (lit (419 / 10))"
    and "fge (fsub (Num 70) (fadd (Num (of_nat n)) (fmul (Num (of_nat n)) (lit (1 / 20)))))
           (lit (419 / 10))"
proof -
  have n: "n \<in> {22, 21, 20, 19, 18, 17, 16}"
    using assms unfolding insert_iff empty_iff by arith
  show "fge (fsub (Num 65) (fadd (Num (of_nat n)) (fmul (Num (of_nat n)) (lit (1 / 20)))))
           (lit (419 / 10))"
    using n by (elim insertE emptyE) (simp_all add: fsub_def fge_def dbl)
  show "fge (fsub (Num 70) (fadd (Num (of_nat n)) (fmul (Num (of_nat n)) (lit (1 / 20)))))
           (lit (419 / 10))"
    using n by (elim insertE emptyE) (simp_all add: fsub_def fge_def dbl)
qed

lemma above_40:
  assumes "fge x (lit (419 / 10))"
  shows "fge x (Num 40)" and "\<not> flt x (Num 40)"
proof -
  have l: "lit (419 / 10) = Num (5896900762088243 / 140737488355328)"
    by (simp add: dbl)
  show "fge x (Num 40)" using assms unfolding l by (cases x) (simp_all add: fge_def)
  show "\<not> flt x (Num 40)" using assms unfolding l by (cases x) (simp_all add: fge_def)
qed

lemma checkout_example:
  "shoppingSubTotal [brandNameEggs, brandNameMilk, brandNameLighter] = Num 22"
  "salesTaxofSubTotal [brandNameEggs, brandNameMilk, brandNameLighter] = lit (11 / 10)"
  "totalPrice [brandNameEggs, brandNameMilk, brandNameLighter] = lit (231 / 10)"
  "fsub (fsub (Num 75) (Num 10)) (lit (231 / 10)) = lit (419 / 10)"
  by (simp_all add: totalPrice_def salesTaxofSubTotal_def shoppingSubTotal_foldl
      brandNameEggs_def brandNameMilk_def brandNameLighter_def fsub_def dbl)

lemma cart_extend:
  assumes "shoppingSubTotal cart = Num (of_nat n)" and "price it = Num (of_nat p)"
    and "n + p \<le> 22"
  shows "shoppingSubTotal (cart @ [it]) = Num (of_nat (n + p))"
  using fadd_small [OF assms(3)] by (simp add: shoppingSubTotal_append assms(1,2))

lemma cartInv_buyEggs:
  assumes "loopInv (w, sh)" and "checkListIncomplete sh" and "cartInv (w, sh)"
    and "toLowerCase r = ''l''" and "\<not> gotEggs sh"
  shows "cartInv (loopBody b r (w, sh))"
proof -
  let ?it = "fst (chooseItem b localEggs brandNameEggs w)"
  obtain n where n: "shoppingSubTotal (shoppingCart sh) = Num (of_nat n)"
    "lowest sh \<le> n" "n \<le> highest sh"
    using assms(3) by (auto simp: cartInv_def)
  have h: "highest sh \<le> 14" using assms(5) by (simp add: highest_def)
  have "?it = localEggs \<or> ?it = brandNameEggs" by (rule chooseItem_fst)
  then obtain p where p: "price ?it = Num (of_nat p)" "6 \<le> p" "p \<le> 8"
  proof
    assume "?it = localEggs"
    then have "price ?it = Num (of_nat 6)" by (simp add: localEggs_def)
    then show ?thesis using that [of 6] by simp
  next
    assume "?it = brandNameEggs"
    then have "price ?it = Num (of_nat 8)" by (simp add: brandNameEggs_def)
    then show ?thesis using that [of 8] by simp
  qed
  have "shoppingSubTotal (shoppingCart sh @ [?it]) = Num (of_nat (n + p))"
    using cart_extend [OF n(1) p(1)] n(3) h p(3) by simp
  moreover have "lowest sh + 6 \<le> n + p" "n + p \<le> highest sh + 8"
    using n(2,3) p(2,3) by simp_all
  ultimately show ?thesis
    unfolding loopBody_buyEggs [OF assms(1,2,4,5)] cartInv_def
    using assms(5) by (intro exI [of _ "n + p"]) (simp add: lowest_def highest_def)
qed

lemma cartInv_buyMilk:
  assumes "loopInv (w, sh)" and "checkListIncomplete sh" and "cartInv (w, sh)"
    and "toLowerCase r = ''r''" and "\<not> gotMilk sh"
  shows "cartInv (loopBody b r (w, sh))"
proof -
  let ?it = "fst (chooseItem b localMilk brandNameMilk w)"
  obtain n where n: "shoppingSubTotal (shoppingCart sh) = Num (of_nat n)"
    "lowest sh \<le> n" "n \<le> highest sh"
    using assms(3) by (auto simp: cartInv_def)
  have h: "highest sh \<le> 13" using assms(5) by (simp add: highest_def)
  have "?it = localMilk \<or> ?it = brandNameMilk" by (rule chooseItem_fst)
  then obtain p where p: "price ?it = Num (of_nat p)" "7 \<le> p" "p \<le> 9"
  proof
    assume "?it = localMilk"
    then have "price ?it = Num (of_nat 7)" by (simp add: localMilk_def)
    then show ?thesis using that [of 7] by simp
  next
    assume "?it = brandNameMilk"
    then have "price ?it = Num (of_nat 9)" by (simp add: brandNameMilk_def)
    then show ?thesis using that [of 9] by simp
  qed
  have "shoppingSubTotal (shoppingCart sh @ [?it]) = Num (of_nat (n + p))"
    using cart_extend [OF n(1) p(1)] n(3) h p(3) by simp
  moreover have "lowest sh + 7 \<le> n + p" "n + p \<le> highest sh + 9"
    using n(2,3) p(2,3) by simp_all
  ultimately show ?thesis
    unfolding loopBody_buyMilk [OF assms(1,2,4,5)] cartInv_def
    using assms(5) by (intro exI [of _ "n + p"]) (simp add: lowest_def highest_def)
qed

lemma cartInv_buyLighter:
  assumes "loopInv (w, sh)" and "checkListIncomplete sh" and "cartInv (w, sh)"
    and "toLowerCase r = ''s''" and "\<not> gotLighter sh"
  shows "cartInv (loopBody b r (w, sh))"
proof -
  let ?it = "fst (chooseItem b localLighter brandNameLighter w)"
  obtain n where n: "shoppingSubTotal (shoppingCart sh) = Num (of_nat n)"
    "lowest sh \<le> n" "n \<le> highest sh"
    using assms(3) by (auto simp: cartInv_def)
  have h: "highest sh \<le> 17" using assms(5) by (simp add: highest_def)
  have "?it = localLighter \<or> ?it = brandNameLighter" by (rule chooseItem_fst)
  then obtain p where p: "price ?it = Num (of_nat p)" "3 \<le> p" "p \<le> 5"
  proof
    assume "?it = localLighter"
    then have "price ?it = Num (of_nat 3)" by (simp add: localLighter_def)
    then show ?thesis using that [of 3] by simp
  next
    assume "?it = brandNameLighter"
    then have "price ?it = Num (of_nat 5)" by (simp add: brandNameLighter_def)
    then show ?thesis using that [of 5] by simp
  qed
  have "shoppingSubTotal (shoppingCart sh @ [?it]) = Num (of_nat (n + p))"
    using cart_extend [OF n(1) p(1)] n(3) h p(3) by simp
  moreover have "lowest sh + 3 \<le> n + p" "n + p \<le> highest sh + 5"
    using n(2,3) p(2,3) by simp_all
  ultimately show ?thesis
    unfolding loopBody_buyLighter [OF assms(1,2,4,5)] cartInv_def
    using assms(5) by (intro exI [of _ "n + p"]) (simp add: lowest_def highest_def)
qed

lemma loopBody_cart:
  assumes "loopInv (w, sh)" and "checkListIncomplete sh" and "cartInv (w, sh)"
  shows "cartInv (loopBody b r (w, sh))"
proof -
  consider (eggs) "toLowerCase r = ''l''" "\<not> gotEggs sh"
    | (milk) "toLowerCase r = ''r''" "\<not> gotMilk sh"
    | (lighter) "toLowerCase r = ''s''" "\<not> gotLighter sh"
    | (idle) "toLowerCase r = ''l'' \<longrightarrow> gotEggs sh" "toLowerCase r = ''r'' \<longrightarrow> gotMilk sh"
        "toLowerCase r = ''s'' \<longrightarrow> gotLighter sh"
    by blast
  then show ?thesis
  proof cases
    case eggs
    then show ?thesis by (rule cartInv_buyEggs [OF assms])
  next
    case milk
    then show ?thesis by (rule cartInv_buyMilk [OF assms])
  next
    case lighter
    then show ?thesis by (rule cartInv_buyLighter [OF assms])
  next
    case idle
    then show ?thesis using assms(3) by (simp add: loopBody_idle [OF assms(1,2)])
  qed
qed

lemma whileLoop_cart:
  assumes "loopInv ws" and "cartInv ws"
  shows "cartInv (whileLoop b lines ws)"
  using assms
proof (induction lines arbitrary: ws)
  case Nil
  then show ?case by simp
next
  case (Cons r rest)
  obtain w sh where ws: "ws = (w, sh)" by (cases ws)
  show ?case
  proof (cases "checkListIncomplete sh")
    case True
    have "cartInv (whileLoop b rest (loopBody b r (w, sh)))"
      using Cons.prems True unfolding ws
      by (intro Cons.IH loopBody_step(1) loopBody_cart)
    then show ?thesis using True ws by simp
  next
    case False
    then show ?thesis using Cons.prems ws by simp
  qed
qed

lemma cartInv_enterLoop: "cartInv (enterLoop w)"
  by (simp add: cartInv_def enterLoop_def shoppingSubTotal_foldl lowest_def highest_def)

lemma loop_world:
  assumes "set (actionSequence (Agent w)) = {True}"
    and "whileLoop b lines (enterLoop w) = (w1, sh)"
  shows "\<exists>d a. w1 = w\<lparr>draws := d, Agent := a\<rparr>"
  using whileLoop_run [OF loopInv_enterLoop [OF assms(1)], of b lines] assms(2)
  by (simp add: enterLoop_def)

lemma loop_cart:
  assumes "set (actionSequence (Agent w)) = {True}"
    and "whileLoop b lines (enterLoop w) = (w1, sh)"
    and "\<not> checkListIncomplete sh"
  shows "\<exists>n. shoppingSubTotal (shoppingCart sh) = Num (of_nat n) \<and> 16 \<le> n \<and> n \<le> 22"
proof -
  have i: "loopInv (w1, sh)"
    using whileLoop_run [OF loopInv_enterLoop [OF assms(1)], of b lines] assms(2) by simp
  then have g: "gotEggs sh \<and> gotMilk sh \<and> gotLighter sh"
    using assms(3) by (auto simp: loopInv_def Let_def)
  have "cartInv (w1, sh)"
    using whileLoop_cart [OF loopInv_enterLoop [OF assms(1)] cartInv_enterLoop, of b lines] assms(2)
    by simp
  then show ?thesis
    using g by (auto simp: cartInv_def lowest_def highest_def)
qed

lemma atCheckout_Some:
  assumes "set (actionSequence (Agent w)) = {True}"
    and "whileLoop b lines (enterLoop w) = (w1, sh)"
    and "\<not> checkListIncomplete sh"
  shows "\<exists>w2. atCheckout b lines w = Some w2 \<and>
           money w2 = fsub (money w) (totalPrice (shoppingCart sh)) \<and>
           gotEnergyDrink w2 = gotEnergyDrink w"
proof -
  obtain d a where "w1 = w\<lparr>draws := d, Agent := a\<rparr>"
    using loop_world [OF assms(1,2)] by blast
  then show ?thesis
    using assms(2,3) by (simp add: atCheckout_def payGroceries_def)
qed

section \<open>Whole runs\<close>

lemma store_entry:
  "set (actionSequence (Agent (enterStore (takeBusOrTaxi (start rnd))))) = {True}"
  "money (enterStore (takeBusOrTaxi (start rnd))) = Num 65 \<or>
   money (enterStore (takeBusOrTaxi (start rnd))) = Num 70"
  "gotEnergyDrink (enterStore (takeBusOrTaxi (start rnd))) = False"
proof -
  show "set (actionSequence (Agent (enterStore (takeBusOrTaxi (start rnd))))) = {True}"
    by (simp add: enterStore_actions start_actions)
  show "money (enterStore (takeBusOrTaxi (start rnd))) = Num 65 \<or>
   money (enterStore (takeBusOrTaxi (start rnd))) = Num 70"
    by (simp add: enterStore_def Let_def takeBusOrTaxi_eq) (simp add: start_def fares)
  show "gotEnergyDrink (enterStore (takeBusOrTaxi (start rnd))) = False"
    by (simp add: enterStore_def Let_def takeBusOrTaxi_eq) (simp add: start_def)
qed

lemma atCheckout_cases:
  "atCheckout b lines w = Some w1 \<Longrightarrow>
     \<exists>w' sh. whileLoop b lines (enterLoop w) = (w', sh) \<and> \<not> checkListIncomplete sh"
  "atCheckout b lines w = None \<Longrightarrow>
     \<exists>w' sh. whileLoop b lines (enterLoop w) = (w', sh) \<and> checkListIncomplete sh"
  by (auto simp: atCheckout_def split: prod.splits if_splits)

lemma checkout_wallet:
  assumes "atCheckout b lines (enterStore (takeBusOrTaxi (start rnd))) = Some w1"
  shows "fge (money w1) (lit (419 / 10))" and "\<not> gotEnergyDrink w1"
proof -
  let ?w = "enterStore (takeBusOrTaxi (start rnd))"
  obtain w' sh where r: "whileLoop b lines (enterLoop ?w) = (w', sh)" "\<not> checkListIncomplete sh"
    using atCheckout_cases(1) [OF assms] by blast
  obtain n where n: "shoppingSubTotal (shoppingCart sh) = Num (of_nat n)" "16 \<le> n" "n \<le> 22"
    using loop_cart [OF store_entry(1) r] by blast
  obtain w2 where w2: "atCheckout b lines ?w = Some w2"
    "money w2 = fsub (money ?w) (totalPrice (shoppingCart sh))"
    "gotEnergyDrink w2 = gotEnergyDrink ?w"
    using atCheckout_Some [OF store_entry(1) r] by blast
  have e: "w2 = w1" using w2(1) assms by simp
  have t: "totalPrice (shoppingCart sh)
             = fadd (Num (of_nat n)) (fmul (Num (of_nat n)) (lit (1 / 20)))"
    by (simp add: totalPrice_def salesTaxofSubTotal_def n(1))
  show "fge (money w1) (lit (419 / 10))"
    using store_entry(2) [of rnd] checkout_bound [OF n(2,3)] w2(2) unfolding e t by auto
  show "\<not> gotEnergyDrink w1"
    using w2(3) store_entry(3) [of rnd] unfolding e by simp
qed

lemma takeTaxiOrBus_drink: "gotEnergyDrink (takeTaxiOrBus w) = gotEnergyDrink w"
  by (simp add: takeTaxiOrBus_eq)

lemma program_eq:
  "program rnd lines
     = map_option (\<lambda>w. (takeTaxiOrBus (energyDrink w))\<lparr>atHome := True\<rparr>)
         (atCheckout (if tookTaxi (takeBusOrTaxi (start rnd)) then fneg (lit (1 / 5)) else Num 0)
            lines (enterStore (takeBusOrTaxi (start rnd))))"
  by (simp add: program_def storeScenario_start(1) storeBranch_def option.map_comp comp_def)

lemma atCheckout_returns:
  assumes "set (actionSequence (Agent w)) = {True}"
  shows "(atCheckout b lines w \<noteq> None) = ({''l'', ''r'', ''s''} \<subseteq> toLowerCase ` set lines)"
proof -
  obtain w' sh where r: "whileLoop b lines (enterLoop w) = (w', sh)"
    by (cases "whileLoop b lines (enterLoop w)")
  have "(atCheckout b lines w \<noteq> None) = (\<not> checkListIncomplete sh)"
    by (simp add: atCheckout_def r)
  then show ?thesis
    using loop_result [OF assms r] by auto
qed

lemma worst_run:
  "map_option money
     (atCheckout (fneg (lit (1 / 5))) [''l'', ''r'', ''s'']
        (enterStore (takeBusOrTaxi (start (\<lambda>n. n < 3)))))
   = Some (fsub (Num 65) (totalPrice [brandNameEggs, brandNameMilk, brandNameLighter]))"
  by (simp add: atCheckout_def enterLoop_def loopBody_def chooseItem_eq purchase_table
      checkList_def includesFrom_def addAction_def addEnvironment_def enterStore_def
      takeBusOrTaxi_eq start_def Let_def lower payGroceries_def fares numeral_3_eq_3)

text \<open>
  Claim C3 gives the sum for the inputs \<open>[1,0,0,0]\<close> as 0.5 and for \<open>[1,1,1,1]\<close> as 1.7.
  The program computes in binary64: \<^verbatim>\<open>0.7\<close> is stored as 0.6999999999999999556 and
  \<^verbatim>\<open>0.2\<close> as 0.2000000000000000111, so that \<^verbatim>\<open>0 + 1*0.7 + 0*0.5 + 0*0.4 + 0*0.3 + -0.2\<close>
  is 0.49999999999999994, and the four weights less 0.2 add up to 1.7000000000000002.
  Neither is the number that the literal \<^verbatim>\<open>0.5\<close> or \<^verbatim>\<open>1.7\<close> denotes.
\<close>

theorem outbound_sums_counterexample:
  "summationOfInputsAndWeights (Num 0) [Num 1, Num 0, Num 0, Num 0]
     [lit (7 / 10), lit (1 / 2), lit (2 / 5), lit (3 / 10)] (fneg (lit (1 / 5))) \<noteq> lit (1 / 2) \<and>
   summationOfInputsAndWeights (Num 0) [Num 1, Num 1, Num 1, Num 1]
     [lit (7 / 10), lit (1 / 2), lit (2 / 5), lit (3 / 10)] (fneg (lit (1 / 5))) \<noteq> lit (17 / 10)"
  by (simp add: outbound_sums) (simp add: dbl)

text \<open>
  Claim C3, amended.  \<^verbatim>\<open>takeBusOrTaxi\<close> draws weather, traffic and crowding, decides
  with the weights 0.7, 0.5, 0.4, 0.3, the bias -0.2 and the threshold 1.5, and then
  takes the taxi for 10 or the bus for 5; the taxi is taken exactly when all three draws
  are 1, so that the wallet of 75 becomes 65 or 70.  The inputs \<open>[1,0,0,0]\<close> give the sum
  \<open>0.5 - 2\<^sup>-\<^sup>5\<^sup>4\<close>, below 1.5, hence the bus; the inputs \<open>[1,1,1,1]\<close> give
  \<open>1.7 + 2\<^sup>-\<^sup>5\<^sup>0 / 5\<close>, at least 1.5, hence the taxi.
\<close>

theorem outbound_transit:
  "(let x = bit (random w (draws w)); y = bit (random w (Suc (draws w)));
        z = bit (random w (Suc (Suc (draws w))));
        taxi = decide [Num 1, x, y, z] [lit (7 / 10), lit (1 / 2), lit (2 / 5), lit (3 / 10)]
                 (fneg (lit (1 / 5))) (lit (3 / 2));
        w' = takeBusOrTaxi w
    in money w' = fsub (money w) (if taxi then Num 10 else Num 5) \<and>
       tookTaxi w' = (taxi \<or> tookTaxi w) \<and> tookBus w' = (\<not> taxi \<or> tookBus w) \<and>
       draws w' = draws w + 3 \<and>
       taxi = (random w (draws w) \<and> random w (Suc (draws w)) \<and> random w (Suc (Suc (draws w))))) \<and>
   money (takeBusOrTaxi (start rnd)) = (if rnd 0 \<and> rnd 1 \<and> rnd 2 then Num 65 else Num 70) \<and>
   summationOfInputsAndWeights (Num 0) [Num 1, Num 0, Num 0, Num 0]
     [lit (7 / 10), lit (1 / 2), lit (2 / 5), lit (3 / 10)] (fneg (lit (1 / 5)))
     = Num (1 / 2 - 1 / 2 ^ 54) \<and>
   flt (Num (1 / 2 - 1 / 2 ^ 54)) (lit (3 / 2)) \<and>
   \<not> decide [Num 1, Num 0, Num 0, Num 0] [lit (7 / 10), lit (1 / 2), lit (2 / 5), lit (3 / 10)]
       (fneg (lit (1 / 5))) (lit (3 / 2)) \<and>
   summationOfInputsAndWeights (Num 0) [Num 1, Num 1, Num 1, Num 1]
     [lit (7 / 10), lit (1 / 2), lit (2 / 5), lit (3 / 10)] (fneg (lit (1 / 5)))
     = Num (17 / 10 + 1 / (5 * 2 ^ 50)) \<and>
   fge (Num (17 / 10 + 1 / (5 * 2 ^ 50))) (lit (3 / 2)) \<and>
   decide [Num 1, Num 1, Num 1, Num 1] [lit (7 / 10), lit (1 / 2), lit (2 / 5), lit (3 / 10)]
     (fneg (lit (1 / 5))) (lit (3 / 2))"
proof -
  have a: "(let x = bit (random w (draws w)); y = bit (random w (Suc (draws w)));
        z = bit (random w (Suc (Suc (draws w))));
        taxi = decide [Num 1, x, y, z] [lit (7 / 10), lit (1 / 2), lit (2 / 5), lit (3 / 10)]
                 (fneg (lit (1 / 5))) (lit (3 / 2));
        w' = takeBusOrTaxi w
    in money w' = fsub (money w) (if taxi then Num 10 else Num 5) \<and>
       tookTaxi w' = (taxi \<or> tookTaxi w) \<and> tookBus w' = (\<not> taxi \<or> tookBus w) \<and>
       draws w' = draws w + 3 \<and>
       taxi = (random w (draws w) \<and> random w (Suc (draws w)) \<and> random w (Suc (Suc (draws w)))))"
    by (auto simp: Let_def outbound_table takeBusOrTaxi_eq)
  have b: "money (takeBusOrTaxi (start rnd)) = (if rnd 0 \<and> rnd 1 \<and> rnd 2 then Num 65 else Num 70)"
    by (simp add: takeBusOrTaxi_eq) (simp add: start_def fares numeral_2_eq_2)
  have c: "flt (Num (1 / 2 - 1 / 2 ^ 54)) (lit (3 / 2))"
    "fge (Num (17 / 10 + 1 / (5 * 2 ^ 50))) (lit (3 / 2))"
    by (simp_all add: fge_def dbl)
  have d: "\<not> decide [Num 1, Num 0, Num 0, Num 0] [lit (7 / 10), lit (1 / 2), lit (2 / 5), lit (3 / 10)]
       (fneg (lit (1 / 5))) (lit (3 / 2))"
    "decide [Num 1, Num 1, Num 1, Num 1] [lit (7 / 10), lit (1 / 2), lit (2 / 5), lit (3 / 10)]
     (fneg (lit (1 / 5))) (lit (3 / 2))"
    using outbound_table [of False False False] outbound_table [of True True True]
    by (simp_all add: bit_def)
  show ?thesis
    using a b c d outbound_sums by blast
qed

theorem outbound_transit_witness:
  "money (takeBusOrTaxi (start (\<lambda>n. True))) = Num 65 \<and>
   tookTaxi (takeBusOrTaxi (start (\<lambda>n. True))) \<and>
   \<not> tookBus (takeBusOrTaxi (start (\<lambda>n. True))) \<and>
   money (takeBusOrTaxi (start (\<lambda>n. n = 0))) = Num 70 \<and>
   tookBus (takeBusOrTaxi (start (\<lambda>n. n = 0))) \<and>
   \<not> tookTaxi (takeBusOrTaxi (start (\<lambda>n. n = 0)))"
proof -
  have s: "money (start rnd) = Num 75" "\<not> tookTaxi (start rnd)" "\<not> tookBus (start rnd)"
    "random (start rnd) = rnd" "draws (start rnd) = 0" for rnd
    by (simp_all add: start_def)
  show ?thesis
    using outbound_transit [of "start (\<lambda>n. True)" "\<lambda>n. True"]
      outbound_transit [of "start (\<lambda>n. n = 0)" "\<lambda>n. n = 0"]
    by (simp add: Let_def s fares)
qed

text \<open>
  Claim C4.  \<^verbatim>\<open>takeTaxiOrBus\<close> draws weather, traffic and crowding, sets the fifth input to
  1 exactly when the wallet is below 40 at that point, decides with the weights 0.7, -0.5,
  0.6, -0.3, 0.4, the bias -0.2 and the threshold 1.3, and then takes the bus for 5 when the
  decision is true and the taxi for 11 when it is false.  The bus is taken exactly when the
  weather is fine, the traffic heavy, the bus not crowded and the wallet below 40.
\<close>

theorem return_transit:
  "(let x = bit (random w (draws w)); y = bit (random w (Suc (draws w)));
        z = bit (random w (Suc (Suc (draws w))));
        moneyLow = (if flt (money w) (Num 40) then Num 1 else Num 0);
        bus = decide [Num 1, x, y, z, moneyLow]
                [lit (7 / 10), fneg (lit (1 / 2)), lit (3 / 5), fneg (lit (3 / 10)), lit (2 / 5)]
                (fneg (lit (1 / 5))) (lit (13 / 10));
        w' = takeTaxiOrBus w
    in money w' = fsub (money w) (if bus then Num 5 else Num 11) \<and>
       tookBusHome w' = (bus \<or> tookBusHome w) \<and> tookTaxiHome w' = (\<not> bus \<or> tookTaxiHome w) \<and>
       draws w' = draws w + 3 \<and>
       bus = (\<not> random w (draws w) \<and> random w (Suc (draws w)) \<and>
              \<not> random w (Suc (Suc (draws w))) \<and> flt (money w) (Num 40)))"
proof -
  have m: "(if flt (money w) (Num 40) then Num 1 else Num 0) = bit (flt (money w) (Num 40))"
    by (simp add: bit_def)
  show ?thesis
    unfolding m by (auto simp: Let_def return_table takeTaxiOrBus_eq)
qed

theorem return_transit_witness:
  "money (takeTaxiOrBus ((start (\<lambda>n. n = 1))\<lparr>money := Num 39\<rparr>)) = Num 34 \<and>
   tookBusHome (takeTaxiOrBus ((start (\<lambda>n. n = 1))\<lparr>money := Num 39\<rparr>)) \<and>
   \<not> tookTaxiHome (takeTaxiOrBus ((start (\<lambda>n. n = 1))\<lparr>money := Num 39\<rparr>)) \<and>
   money (takeTaxiOrBus ((start (\<lambda>n. n = 1))\<lparr>money := Num 40\<rparr>)) = Num 29 \<and>
   tookTaxiHome (takeTaxiOrBus ((start (\<lambda>n. n = 1))\<lparr>money := Num 40\<rparr>)) \<and>
   \<not> tookBusHome (takeTaxiOrBus ((start (\<lambda>n. n = 1))\<lparr>money := Num 40\<rparr>))"
proof -
  have s: "\<not> tookTaxiHome (start rnd)" "\<not> tookBusHome (start rnd)"
    "random (start rnd) = rnd" "draws (start rnd) = 0" for rnd
    by (simp_all add: start_def)
  have f: "fsub (Num 39) (Num 5) = Num 34" "fsub (Num 40) (Num 11) = Num 29"
    by (simp_all add: fsub_def dbl)
  show ?thesis
    using return_transit [of "(start (\<lambda>n. n = 1))\<lparr>money := Num 39\<rparr>"]
      return_transit [of "(start (\<lambda>n. n = 1))\<lparr>money := Num 40\<rparr>"]
    by (simp add: Let_def s f)
qed

text \<open>
  Claim C5.  In whatever state a buying branch of the loop is taken, it draws the local
  availability, decides on the inputs \<open>[1, localAvailable, 1]\<close> with the weights 0.6, -0.3,
  0.6, the spending bias and the threshold 1.0, and appends to the cart the brand-name
  variant of the section's item when the decision is true and the local variant otherwise.
  \<^verbatim>\<open>storeScenario\<close> runs the loop with the bias -0.2 after a taxi and 0 after a bus.  With
  either bias the brand-name variant is chosen exactly when no local goods are available.
  The prices are 6 and 8 for eggs, 7 and 9 for milk, 3 and 5 for a lighter.  With the bias
  -0.2 and local goods available the sum is the number that \<^verbatim>\<open>0.7\<close> denotes, below 1.0.
\<close>

theorem purchase_decision:
  "(let x = bit (random w (draws w));
        brand = decide [Num 1, x, Num 1] [lit (3 / 5), fneg (lit (3 / 10)), lit (3 / 5)] b (lit 1)
    in (toLowerCase r = ''l'' \<and> \<not> includesFrom (actionSequence (Agent w)) (gotEggs sh) 1 \<longrightarrow>
          shoppingCart (snd (loopBody b r (w, sh)))
            = shoppingCart sh @ [if brand then brandNameEggs else localEggs]) \<and>
       (toLowerCase r = ''r'' \<and> \<not> includesFrom (actionSequence (Agent w)) (gotMilk sh) 1 \<longrightarrow>
          shoppingCart (snd (loopBody b r (w, sh)))
            = shoppingCart sh @ [if brand then brandNameMilk else localMilk]) \<and>
       (toLowerCase r = ''s'' \<and> \<not> includesFrom (actionSequence (Agent w)) (gotLighter sh) 1 \<longrightarrow>
          shoppingCart (snd (loopBody b r (w, sh)))
            = shoppingCart sh @ [if brand then brandNameLighter else localLighter])) \<and>
   storeScenario lines (takeBusOrTaxi (start rnd))
     = storeBranch (if tookTaxi (takeBusOrTaxi (start rnd)) then fneg (lit (1 / 5)) else Num 0)
         lines (enterStore (takeBusOrTaxi (start rnd))) \<and>
   tookBus (takeBusOrTaxi (start rnd)) = (\<not> tookTaxi (takeBusOrTaxi (start rnd))) \<and>
   decide [Num 1, bit a, Num 1] [lit (3 / 5), fneg (lit (3 / 10)), lit (3 / 5)]
     (fneg (lit (1 / 5))) (lit 1) = (\<not> a) \<and>
   decide [Num 1, bit a, Num 1] [lit (3 / 5), fneg (lit (3 / 10)), lit (3 / 5)]
     (Num 0) (lit 1) = (\<not> a) \<and>
   price localEggs = Num 6 \<and> price brandNameEggs = Num 8 \<and>
   price localMilk = Num 7 \<and> price brandNameMilk = Num 9 \<and>
   price localLighter = Num 3 \<and> price brandNameLighter = Num 5 \<and>
   summationOfInputsAndWeights (Num 0) [Num 1, Num 1, Num 1]
     [lit (3 / 5), fneg (lit (3 / 10)), lit (3 / 5)] (fneg (lit (1 / 5))) = lit (7 / 10) \<and>
   flt (lit (7 / 10)) (lit 1)"
proof -
  have c: "(let x = bit (random w (draws w));
        brand = decide [Num 1, x, Num 1] [lit (3 / 5), fneg (lit (3 / 10)), lit (3 / 5)] b (lit 1)
    in (toLowerCase r = ''l'' \<and> \<not> includesFrom (actionSequence (Agent w)) (gotEggs sh) 1 \<longrightarrow>
          shoppingCart (snd (loopBody b r (w, sh)))
            = shoppingCart sh @ [if brand then brandNameEggs else localEggs]) \<and>
       (toLowerCase r = ''r'' \<and> \<not> includesFrom (actionSequence (Agent w)) (gotMilk sh) 1 \<longrightarrow>
          shoppingCart (snd (loopBody b r (w, sh)))
            = shoppingCart sh @ [if brand then brandNameMilk else localMilk]) \<and>
       (toLowerCase r = ''s'' \<and> \<not> includesFrom (actionSequence (Agent w)) (gotLighter sh) 1 \<longrightarrow>
          shoppingCart (snd (loopBody b r (w, sh)))
            = shoppingCart sh @ [if brand then brandNameLighter else localLighter]))"
    by (simp add: loopBody_def Let_def chooseItem_eq checkList_cart)
  have p: "price localEggs = Num 6 \<and> price brandNameEggs = Num 8 \<and>
   price localMilk = Num 7 \<and> price brandNameMilk = Num 9 \<and>
   price localLighter = Num 3 \<and> price brandNameLighter = Num 5"
    by (simp add: localEggs_def brandNameEggs_def localMilk_def brandNameMilk_def
        localLighter_def brandNameLighter_def)
  have f: "flt (lit (7 / 10)) (lit 1)"
    by (simp add: dbl)
  have t: "tookBus (takeBusOrTaxi (start rnd)) = (\<not> tookTaxi (takeBusOrTaxi (start rnd)))"
    by (simp add: storeScenario_start)
  show ?thesis
    using c p f t storeScenario_start(1) [of lines rnd] purchase_table [of a] purchase_sum
    by blast
qed

theorem purchase_decision_witness:
  "toLowerCase ''l'' = ''l'' \<and>
   \<not> includesFrom (actionSequence (Agent (enterStore (takeBusOrTaxi (start (\<lambda>n. False))))))
       (gotEggs (snd (enterLoop (enterStore (takeBusOrTaxi (start (\<lambda>n. False))))))) 1 \<and>
   shoppingCart (snd (loopBody (Num 0) ''l''
       (enterLoop (enterStore (takeBusOrTaxi (start (\<lambda>n. False))))))) = [brandNameEggs] \<and>
   toLowerCase ''R'' = ''r'' \<and>
   \<not> includesFrom (actionSequence (Agent (enterStore (takeBusOrTaxi (start (\<lambda>n. False))))))
       (gotMilk (snd (enterLoop (enterStore (takeBusOrTaxi (start (\<lambda>n. False))))))) 1 \<and>
   shoppingCart (snd (loopBody (Num 0) ''R''
       (enterLoop (enterStore (takeBusOrTaxi (start (\<lambda>n. False))))))) = [brandNameMilk] \<and>
   toLowerCase ''s'' = ''s'' \<and>
   \<not> includesFrom (actionSequence (Agent (enterStore (takeBusOrTaxi (start (\<lambda>n. False))))))
       (gotLighter (snd (enterLoop (enterStore (takeBusOrTaxi (start (\<lambda>n. False))))))) 1 \<and>
   shoppingCart (snd (loopBody (Num 0) ''s''
       (enterLoop (enterStore (takeBusOrTaxi (start (\<lambda>n. False))))))) = [brandNameLighter]"
proof -
  let ?w = "enterStore (takeBusOrTaxi (start (\<lambda>n. False)))"
  let ?sh = "\<lparr>checkListIncomplete = True, shoppingCart = [],
              gotEggs = False, gotMilk = False, gotLighter = False\<rparr>"
  have e: "enterLoop ?w = (?w, ?sh)" by (simp add: enterLoop_def)
  have a: "actionSequence (Agent ?w) = [True]"
    by (simp add: enterStore_actions takeBusOrTaxi_actions) (simp add: start_def addEnvironment_def)
  have r: "random ?w (draws ?w) = False"
    by (simp add: enterStore_def Let_def takeBusOrTaxi_eq) (simp add: start_def)
  have l: "toLowerCase ''l'' = ''l''" "toLowerCase ''R'' = ''r''" "toLowerCase ''s'' = ''s''"
    by (simp_all add: lower)
  have i: "\<not> includesFrom (actionSequence (Agent ?w)) False 1"
    by (simp add: a includesFrom_def)
  have d: "decide [Num 1, bit False, Num 1] [lit (3 / 5), fneg (lit (3 / 10)), lit (3 / 5)]
     (Num 0) (lit 1)"
    by (simp add: purchase_table)
  have 1: "shoppingCart (snd (loopBody (Num 0) ''l'' (enterLoop ?w))) = [brandNameEggs]"
    using purchase_decision [of ?w "Num 0" "''l''" ?sh] l i d unfolding e r Let_def by simp
  have 2: "shoppingCart (snd (loopBody (Num 0) ''R'' (enterLoop ?w))) = [brandNameMilk]"
    using purchase_decision [of ?w "Num 0" "''R''" ?sh] l i d unfolding e r Let_def by simp
  have 3: "shoppingCart (snd (loopBody (Num 0) ''s'' (enterLoop ?w))) = [brandNameLighter]"
    using purchase_decision [of ?w "Num 0" "''s''" ?sh] l i d unfolding e r Let_def by simp
  show ?thesis
    using l i 1 2 3 by (simp add: e)
qed

text \<open>
  Claim C6.  When the loop has ended, the subtotal is the sum of the prices in the cart
  (added in cart order; a whole number from 16 to 22, so no rounding occurs), the tax is
  the subtotal times 0.05, the total is the subtotal plus the tax, and the wallet at the
  checkout is the wallet on entering the store less that total.  For the cart of the
  brand-name eggs (8), milk (9) and lighter (5) the subtotal is 22, the tax is the number
  that \<^verbatim>\<open>1.10\<close> denotes and the total the number that \<^verbatim>\<open>23.10\<close> denotes.
\<close>

theorem checkout_total:
  assumes "set (actionSequence (Agent w)) = {True}"
    and "whileLoop b lines (enterLoop w) = (w1, sh)"
    and "\<not> checkListIncomplete sh"
  shows "shoppingSubTotal (shoppingCart sh)
           = foldl (\<lambda>subTotal it. fadd subTotal (price it)) (Num 0) (shoppingCart sh) \<and>
         (\<exists>n. shoppingSubTotal (shoppingCart sh) = Num (of_nat n) \<and> 16 \<le> n \<and> n \<le> 22) \<and>
         salesTaxofSubTotal (shoppingCart sh)
           = fmul (shoppingSubTotal (shoppingCart sh)) (lit (1 / 20)) \<and>
         totalPrice (shoppingCart sh)
           = fadd (shoppingSubTotal (shoppingCart sh)) (salesTaxofSubTotal (shoppingCart sh)) \<and>
         (\<exists>w2. atCheckout b lines w = Some w2 \<and>
               money w2 = fsub (money w) (totalPrice (shoppingCart sh))) \<and>
         shoppingSubTotal [brandNameEggs, brandNameMilk, brandNameLighter] = Num 22 \<and>
         salesTaxofSubTotal [brandNameEggs, brandNameMilk, brandNameLighter] = lit (11 / 10) \<and>
         totalPrice [brandNameEggs, brandNameMilk, brandNameLighter] = lit (231 / 10)"
  using loop_cart [OF assms] atCheckout_Some [OF assms] checkout_example(1-3)
  by (simp add: shoppingSubTotal_foldl [symmetric] salesTaxofSubTotal_def totalPrice_def) blast

theorem checkout_total_witness:
  "\<exists>w1 sh.
     set (actionSequence (Agent (enterStore (takeBusOrTaxi (start (\<lambda>n. False)))))) = {True} \<and>
     whileLoop (Num 0) [''s'', ''l'', ''r''] (enterLoop (enterStore (takeBusOrTaxi (start (\<lambda>n. False)))))
       = (w1, sh) \<and>
     \<not> checkListIncomplete sh \<and>
     (\<exists>n. shoppingSubTotal (shoppingCart sh) = Num (of_nat n) \<and> 16 \<le> n \<and> n \<le> 22) \<and>
     (\<exists>w2. atCheckout (Num 0) [''s'', ''l'', ''r''] (enterStore (takeBusOrTaxi (start (\<lambda>n. False))))
             = Some w2 \<and>
           money w2 = fsub (Num 70) (totalPrice (shoppingCart sh)))"
proof -
  let ?w = "enterStore (takeBusOrTaxi (start (\<lambda>n. False)))"
  have a: "set (actionSequence (Agent ?w)) = {True}"
    by (simp add: enterStore_actions start_actions)
  have m: "money ?w = Num 70"
    by (simp add: enterStore_def Let_def takeBusOrTaxi_eq) (simp add: start_def fares)
  obtain w1 sh where r: "whileLoop (Num 0) [''s'', ''l'', ''r''] (enterLoop ?w) = (w1, sh)"
    by (cases "whileLoop (Num 0) [''s'', ''l'', ''r''] (enterLoop ?w)")
  have c: "\<not> checkListIncomplete sh"
    using loop_result [OF a r] by (auto simp: lower)
  show ?thesis
    using checkout_total [OF a r c] a r c unfolding m by blast
qed

text \<open>
  Claim C7.  \<^verbatim>\<open>storeScenario\<close> runs the energy-drink step on the state left by the checkout
  debit.  When the wallet is at least 40 the step takes 6 from it and sets
  \<open>gotEnergyDrink\<close>; when the wallet is below 40 the step changes nothing.  It consumes no
  random draw.  So, the wallet being a number, the drink is bought exactly when the wallet
  is at least 40.
\<close>

theorem energy_drink:
  "(fge (money w) (Num 40) \<longrightarrow>
      energyDrink w = w\<lparr>money := fsub (money w) (Num 6), gotEnergyDrink := True\<rparr>) \<and>
   (flt (money w) (Num 40) \<longrightarrow> energyDrink w = w) \<and>
   (money w \<noteq> NaN \<longrightarrow>
      gotEnergyDrink (energyDrink w) = (gotEnergyDrink w \<or> fge (money w) (Num 40))) \<and>
   random (energyDrink w) = random w \<and> draws (energyDrink w) = draws w \<and>
   storeBranch b lines w0 = map_option energyDrink (atCheckout b lines w0)"
  by (auto simp: energyDrink_def fge_def storeBranch_def)

theorem energy_drink_witness:
  "fge (money (start (\<lambda>n. False))) (Num 40) \<and>
   money (start (\<lambda>n. False)) \<noteq> NaN \<and>
   money (energyDrink (start (\<lambda>n. False))) = Num 69 \<and>
   gotEnergyDrink (energyDrink (start (\<lambda>n. False))) \<and>
   flt (money ((start (\<lambda>n. False))\<lparr>money := Num 39\<rparr>)) (Num 40) \<and>
   energyDrink ((start (\<lambda>n. False))\<lparr>money := Num 39\<rparr>) = (start (\<lambda>n. False))\<lparr>money := Num 39\<rparr>"
proof -
  have m: "money (start (\<lambda>n. False)) = Num 75" "\<not> gotEnergyDrink (start (\<lambda>n. False))"
    by (simp_all add: start_def)
  have s: "fsub (Num 75) (Num 6) = Num 69"
    by (simp add: fsub_def dbl)
  have g: "fge (Num 75) (Num 40)" by (simp add: fge_def)
  show ?thesis
    using energy_drink [of "start (\<lambda>n. False)" "Num 0" "[]" "start (\<lambda>n. False)"]
      energy_drink [of "(start (\<lambda>n. False))\<lparr>money := Num 39\<rparr>" "Num 0" "[]" "start (\<lambda>n. False)"]
    by (simp add: m s g)
qed

text \<open>
  Claim C10.  For every outcome of the random draws and every list of lines: when the
  checkout is reached, the wallet after the grocery debit is at least the number that
  \<^verbatim>\<open>41.9\<close> denotes, hence at least 40 and not below 40, so the energy-drink step buys
  the drink; every run of the whole script that ends has \<open>gotEnergyDrink\<close> set; and the
  script ends exactly when the lines contain the three letters.  The bound is the wallet
  of 75 less the taxi fare of 10 and the total of the three brand-name items.
\<close>

theorem drink_always_bought:
  "(\<forall>w1. atCheckout (if tookTaxi (takeBusOrTaxi (start rnd)) then fneg (lit (1 / 5)) else Num 0)
           lines (enterStore (takeBusOrTaxi (start rnd))) = Some w1 \<longrightarrow>
         fge (money w1) (lit (419 / 10)) \<and> fge (money w1) (Num 40) \<and> \<not> flt (money w1) (Num 40) \<and>
         gotEnergyDrink (energyDrink w1)) \<and>
   (\<forall>wf. program rnd lines = Some wf \<longrightarrow> gotEnergyDrink wf) \<and>
   (program rnd lines \<noteq> None) = ({''l'', ''r'', ''s''} \<subseteq> toLowerCase ` set lines) \<and>
   fsub (fsub (Num 75) (Num 10)) (totalPrice [brandNameEggs, brandNameMilk, brandNameLighter])
     = lit (419 / 10)"
proof -
  let ?b = "if tookTaxi (takeBusOrTaxi (start rnd)) then fneg (lit (1 / 5)) else Num 0"
  let ?w = "enterStore (takeBusOrTaxi (start rnd))"
  have 1: "fge (money w1) (lit (419 / 10)) \<and> fge (money w1) (Num 40) \<and> \<not> flt (money w1) (Num 40) \<and>
         gotEnergyDrink (energyDrink w1)" if "atCheckout ?b lines ?w = Some w1" for w1
  proof -
    note c = checkout_wallet(1) [OF that]
    note a = above_40 [OF c]
    show ?thesis using c a by (simp add: energyDrink_def)
  qed
  have 2: "gotEnergyDrink wf" if "program rnd lines = Some wf" for wf
  proof -
    have "map_option (\<lambda>w. (takeTaxiOrBus (energyDrink w))\<lparr>atHome := True\<rparr>)
            (atCheckout ?b lines ?w) = Some wf"
      using that by (simp only: program_eq)
    then obtain w1 where w1: "atCheckout ?b lines ?w = Some w1"
      "wf = (takeTaxiOrBus (energyDrink w1))\<lparr>atHome := True\<rparr>"
      by (cases "atCheckout ?b lines ?w") auto
    show ?thesis using 1 [OF w1(1)] by (simp add: w1(2) takeTaxiOrBus_drink)
  qed
  have 3: "(program rnd lines \<noteq> None) = ({''l'', ''r'', ''s''} \<subseteq> toLowerCase ` set lines)"
    using atCheckout_returns [OF store_entry(1), where b = ?b and lines = lines and rnd1 = rnd]
    by (simp add: program_eq)
  have 4: "fsub (fsub (Num 75) (Num 10)) (totalPrice [brandNameEggs, brandNameMilk, brandNameLighter])
     = lit (419 / 10)"
    by (simp add: checkout_example)
  show ?thesis using 1 2 3 4 by blast
qed

theorem drink_always_bought_witness:
  "\<exists>w1 wf.
     atCheckout (if tookTaxi (takeBusOrTaxi (start (\<lambda>n. n < 3))) then fneg (lit (1 / 5)) else Num 0)
       [''l'', ''r'', ''s''] (enterStore (takeBusOrTaxi (start (\<lambda>n. n < 3)))) = Some w1 \<and>
     money w1 = lit (419 / 10) \<and>
     fge (money w1) (Num 40) \<and> \<not> flt (money w1) (Num 40) \<and> gotEnergyDrink (energyDrink w1) \<and>
     program (\<lambda>n. n < 3) [''l'', ''r'', ''s''] = Some wf \<and> gotEnergyDrink wf"
proof -
  let ?rnd = "\<lambda>n::nat. n < 3"
  let ?lines = "[''l'', ''r'', ''s'']"
  let ?b = "if tookTaxi (takeBusOrTaxi (start ?rnd)) then fneg (lit (1 / 5)) else Num 0"
  let ?w = "enterStore (takeBusOrTaxi (start ?rnd))"
  note t = drink_always_bought [of ?rnd ?lines]
  have b: "?b = fneg (lit (1 / 5))"
    by (simp add: storeScenario_start(2))
  obtain w1 where w1: "atCheckout ?b ?lines ?w = Some w1"
    "money w1 = fsub (Num 65) (totalPrice [brandNameEggs, brandNameMilk, brandNameLighter])"
    using worst_run unfolding b by (cases "atCheckout (fneg (lit (1 / 5))) ?lines ?w") auto
  have m: "money w1 = lit (419 / 10)"
    using w1(2) checkout_example(3,4) fares(1) by simp
  have "{''l'', ''r'', ''s''} \<subseteq> toLowerCase ` set ?lines"
    by (simp add: lower)
  then have "program ?rnd ?lines \<noteq> None"
    using t by blast
  then obtain wf where wf: "program ?rnd ?lines = Some wf"
    by blast
  have g: "gotEnergyDrink wf" using t wf by blast
  have c: "fge (money w1) (Num 40) \<and> \<not> flt (money w1) (Num 40) \<and> gotEnergyDrink (energyDrink w1)"
    using t w1(1) by blast
  show ?thesis
    using w1(1) m c wf g by blast
qed

end
